theory Spec2Isabelle
  imports Complex_Main
begin

section \<open>Strings and the pattern matches of the progress parser\<close>

text \<open>
  JavaScript strings are modelled as \<open>string\<close> (code units below 256). The handler model
  of the next section computes with exact \<open>real\<close>s; it serves the properties of the order
  of the events and of the handler's flags. The values that \<open>parseProgress\<close> computes are
  rounded in the code: they are those of the section on binary64 below, where every
  operation is a binary64 operation, and where the order of the percentages sent is
  established once more. The functions of this section embed the string operations that
  \<open>src/pages/api/download-progress.ts\<close> applies to a chunk of subprocess output:
  \<open>String.prototype.includes\<close>, \<open>startsWith\<close>, \<open>toLowerCase\<close>, \<open>parseFloat\<close> on the text
  captured by \<open>(\d+\.?\d*)\<close>, and the two regular expressions \<open>progressMatch\<close> and
  \<open>sizeMatch\<close> of \<open>parseProgress\<close>.
\<close>

definition startsWith :: "string \<Rightarrow> string \<Rightarrow> bool" where
  "startsWith s p = (take (length p) s = p)"

fun includes_str :: "string \<Rightarrow> string \<Rightarrow> bool" where
  "includes_str [] sub = (sub = [])"
| "includes_str (c # cs) sub = (startsWith (c # cs) sub \<or> includes_str cs sub)"

declare includes_str.simps [simp del]

definition isDigit :: "char \<Rightarrow> bool" where
  "isDigit c = (48 \<le> (of_char c :: nat) \<and> (of_char c :: nat) \<le> 57)"

definition isSpace :: "char \<Rightarrow> bool" where
  \<comment> \<open>the class \<open>\s\<close> on code units below 256: TAB, LF, VT, FF, CR, space, NBSP\<close>
  "isSpace c = ((of_char c :: nat) \<in> {9, 10, 11, 12, 13, 32, 160})"

definition toLowerCase :: "char \<Rightarrow> char" where
  "toLowerCase c =
     (case map_of (zip ''ABCDEFGHIJKLMNOPQRSTUVWXYZ'' ''abcdefghijklmnopqrstuvwxyz'') c of
        Some l \<Rightarrow> l
      | None \<Rightarrow> c)"

definition digitVal :: "char \<Rightarrow> nat" where
  "digitVal c = of_char c - 48"

definition natOfDigits :: "string \<Rightarrow> nat" where
  "natOfDigits ds = foldl (\<lambda>n c. 10 * n + digitVal c) 0 ds"

definition parseFloat :: "string \<Rightarrow> real" where
  \<comment> \<open>\<open>parseFloat\<close> on a text of the shape \<open>\d+\.?\d*\<close>: its decimal value\<close>
  "parseFloat t =
     (let ip = takeWhile isDigit t;
          r = dropWhile isDigit t;
          fp = (case r of [] \<Rightarrow> [] | c # r' \<Rightarrow> if c = CHR ''.'' then takeWhile isDigit r' else [])
      in real (natOfDigits ip) + real (natOfDigits fp) / 10 ^ length fp)"

text \<open>
  The sub-pattern \<open>\s+\<close> and the capture \<open>(\d+\.?\d*)\<close>, matched greedily at the start of a text.
  In both regular expressions the token after the number (\<open>%\<close>, or the first letter of the
  unit) is neither a digit nor a dot, and the token after \<open>\s+\<close> is no white space, so no
  shorter alternative of a greedy match can succeed where the greedy one fails.
\<close>

definition matchSpaces :: "string \<Rightarrow> string option" where
  "matchSpaces s = (if takeWhile isSpace s = [] then None else Some (dropWhile isSpace s))"

definition matchNumber :: "string \<Rightarrow> (string \<times> string) option" where
  "matchNumber s =
     (let ip = takeWhile isDigit s; r = dropWhile isDigit s
      in if ip = [] then None
         else (case r of
                 [] \<Rightarrow> Some (ip, r)
               | c # r' \<Rightarrow>
                   if c = CHR ''.'' then Some (ip @ [c] @ takeWhile isDigit r', dropWhile isDigit r')
                   else Some (ip, r)))"

fun regexSearch :: "(string \<Rightarrow> 'a option) \<Rightarrow> string \<Rightarrow> 'a option" where
  \<comment> \<open>an unanchored match: the leftmost position at which the pattern matches\<close>
  "regexSearch m [] = m []"
| "regexSearch m (c # cs) = (case m (c # cs) of Some r \<Rightarrow> Some r | None \<Rightarrow> regexSearch m cs)"

definition progressAt :: "string \<Rightarrow> string option" where
  \<comment> \<open>\<open>/\[download\]\s+(\d+\.?\d*)%/\<close> at the start of the text; the result is group 1\<close>
  "progressAt s =
     (if startsWith s ''[download]'' then
        (case matchSpaces (drop 10 s) of
           None \<Rightarrow> None
         | Some r \<Rightarrow>
             (case matchNumber r of
                None \<Rightarrow> None
              | Some (num, r') \<Rightarrow>
                  (case r' of [] \<Rightarrow> None | c # _ \<Rightarrow> if c = CHR ''%'' then Some num else None)))
      else None)"

definition progressMatch :: "string \<Rightarrow> string option" where
  "progressMatch output = regexSearch progressAt output"

definition matchUnit :: "string \<Rightarrow> string option" where
  \<comment> \<open>the capture \<open>(MiB|KiB|GiB)\<close> under the flag \<open>i\<close>\<close>
  "matchUnit s =
     (if map toLowerCase (take 3 s) \<in> {''mib'', ''kib'', ''gib''} then Some (take 3 s) else None)"

definition matchesOf :: "string \<Rightarrow> bool" where
  \<comment> \<open>the literal \<open>of\<close> under the flag \<open>i\<close>\<close>
  "matchesOf s = (map toLowerCase (take 2 s) = ''of'')"

definition matchTilde :: "string \<Rightarrow> bool \<times> string" where
  \<comment> \<open>the optional capture \<open>(~)?\<close>\<close>
  "matchTilde s = (if s \<noteq> [] \<and> hd s = CHR ''~'' then (True, tl s) else (False, s))"

definition sizeAt :: "string \<Rightarrow> (bool \<times> string \<times> string) option" where
  \<comment> \<open>\<open>/of\s+(~)?(\d+\.?\d*)(MiB|KiB|GiB)/i\<close> at the start of the text; the result is
      (group 1 present, group 2, group 3)\<close>
  "sizeAt s =
     (if matchesOf s then
        (case matchSpaces (drop 2 s) of
           None \<Rightarrow> None
         | Some r \<Rightarrow>
             (case matchTilde r of
                (tilde, r1) \<Rightarrow>
                  (case matchNumber r1 of
                     None \<Rightarrow> None
                   | Some (num, r2) \<Rightarrow>
                       (case matchUnit r2 of
                          None \<Rightarrow> None
                        | Some u \<Rightarrow> Some (tilde, num, u)))))
      else None)"

definition sizeMatch :: "string \<Rightarrow> (bool \<times> string \<times> string) option" where
  "sizeMatch output = regexSearch sizeAt output"

definition convertToMB :: "string \<Rightarrow> real \<Rightarrow> real" where
  \<comment> \<open>the "Convert to MB" chain on the lower-cased unit\<close>
  "convertToMB unit sizeValue =
     (if unit = ''gib'' then sizeValue * 1024
      else if unit = ''kib'' then sizeValue / 1024
      else sizeValue)"

definition parseLine :: "string \<Rightarrow> (real \<times> real) option" where
  \<comment> \<open>\<open>progress\<close> and \<open>sizeMB\<close> of \<open>parseProgress\<close>, when both patterns match\<close>
  "parseLine output =
     (case progressMatch output of
        None \<Rightarrow> None
      | Some pm \<Rightarrow>
          (case sizeMatch output of
             None \<Rightarrow> None
           | Some (tilde, num, u) \<Rightarrow>
               Some (parseFloat pm, convertToMB (map toLowerCase u) (parseFloat num))))"

section \<open>The download handler of \<open>download-progress.ts\<close>\<close>

text \<open>
  The handler is a set of callbacks over the variables declared before them. Its model is
  a record of those variables and of what the callbacks act on (the response object, the
  subprocess, the staging file, the timers), and one function per callback. \<open>res_log\<close> holds
  the calls made on the response in order: each \<open>sendEvent\<close> and each \<open>res.end()\<close>.
\<close>

datatype failure =
    ProcessingFailed           \<comment> \<open>"Download failed during processing. ..."\<close>
  | FileNotFound               \<comment> \<open>"Download completed but file not found. ..."\<close>
  | MergeFailed                \<comment> \<open>"Download failed during merge. ..." (exit code 1)\<close>
  | ExitCode "int option"      \<comment> \<open>"Download failed with error code: " + code\<close>
  | SpawnFailed string         \<comment> \<open>the message of the subprocess's \<open>error\<close> event\<close>

datatype merge_message = MergingStarted | StillMerging

datatype event =
    Start
  | Progress int
  | Merging merge_message
  | Complete
  | Error failure

datatype res_call = Write event | End

record dl_state =
  firstFileSize :: real
  secondFileSize :: real
  currentFileProgress :: real
  firstFileComplete :: bool
  lastSentProgress :: real
  accumulatedMB :: real
  isMerging :: bool
  downloadSuccess :: bool
  res_log :: "res_call list"
  mergeUpdateInterval :: bool      \<comment> \<open>the 10 s interval timer is set\<close>
  procClosed :: bool               \<comment> \<open>the subprocess's \<open>close\<close> event has been emitted\<close>
  attempts :: "nat option"         \<comment> \<open>\<open>Some n\<close>: the \<open>close\<close> callback waits in its loop, \<open>attempts = n\<close>\<close>
  killCalls :: nat                 \<comment> \<open>calls of \<open>proc.kill()\<close>\<close>
  tempFileExists :: bool           \<comment> \<open>\<open>fs.existsSync(tempFilePath)\<close>\<close>
  unlinkCalls :: nat               \<comment> \<open>calls of \<open>fs.unlinkSync(tempFilePath)\<close>\<close>

definition sendEvent :: "event \<Rightarrow> dl_state \<Rightarrow> dl_state" where
  "sendEvent ev s = s\<lparr>res_log := res_log s @ [Write ev]\<rparr>"

definition res_end :: "dl_state \<Rightarrow> dl_state" where
  "res_end s = s\<lparr>res_log := res_log s @ [End]\<rparr>"

definition unlinkIfExists :: "dl_state \<Rightarrow> dl_state" where
  \<comment> \<open>\<open>if (fs.existsSync(tempFilePath)) fs.unlinkSync(tempFilePath)\<close>\<close>
  "unlinkIfExists s =
     (if tempFileExists s then s\<lparr>tempFileExists := False, unlinkCalls := unlinkCalls s + 1\<rparr> else s)"

definition initial :: dl_state where
  \<comment> \<open>the variables as declared, after \<open>sendEvent('start')\<close> and \<open>sendEvent('progress', 0)\<close>\<close>
  "initial =
     \<lparr>firstFileSize = 0, secondFileSize = 0, currentFileProgress = 0,
      firstFileComplete = False, lastSentProgress = 0, accumulatedMB = 0,
      isMerging = False, downloadSuccess = False,
      res_log = [Write Start, Write (Progress 0)],
      mergeUpdateInterval = False, procClosed = False, attempts = None,
      killCalls = 0, tempFileExists = False, unlinkCalls = 0\<rparr>"

subsection \<open>\<open>parseProgress\<close>\<close>

definition trackSizes :: "real \<Rightarrow> dl_state \<Rightarrow> dl_state" where
  \<comment> \<open>"Detect when we switch to second file"\<close>
  "trackSizes sizeMB s =
     (if firstFileSize s = 0 then s\<lparr>firstFileSize := sizeMB\<rparr>
      else if \<not> firstFileComplete s \<and> \<bar>sizeMB - firstFileSize s\<bar> > 1 / 10
      then s\<lparr>firstFileComplete := True, secondFileSize := sizeMB,
             accumulatedMB := firstFileSize s\<rparr>
      else s)"

definition totalSize :: "dl_state \<Rightarrow> real" where
  "totalSize s =
     (if firstFileComplete s then firstFileSize s + secondFileSize s else firstFileSize s)"

definition totalDownloaded :: "dl_state \<Rightarrow> real" where
  "totalDownloaded s =
     (if firstFileComplete s
      then accumulatedMB s + (secondFileSize s * currentFileProgress s) / 100
      else (firstFileSize s * currentFileProgress s) / 100)"

definition combinedProgress :: "dl_state \<Rightarrow> real" where
  "combinedProgress s =
     (if totalSize s > 0 then (totalDownloaded s / totalSize s) * 100 else 0)"

definition parseProgress :: "string \<Rightarrow> dl_state \<Rightarrow> dl_state" where
  "parseProgress output s =
     (case parseLine output of
        None \<Rightarrow> s
      | Some (progress, sizeMB) \<Rightarrow>
          (let s1 = (trackSizes sizeMB s)\<lparr>currentFileProgress := progress\<rparr>;
               roundedProgress = \<lfloor>combinedProgress s1\<rfloor>
           in if roundedProgress > \<lfloor>lastSentProgress s1\<rfloor>
              then sendEvent (Progress roundedProgress)
                     (s1\<lparr>lastSentProgress := combinedProgress s1\<rparr>)
              else s1))"

subsection \<open>The callbacks\<close>

definition detectMerging :: "string \<Rightarrow> dl_state \<Rightarrow> dl_state" where
  \<comment> \<open>"Detect merging stage", the same in the \<open>stdout\<close> and the \<open>stderr\<close> callback\<close>
  "detectMerging output s =
     (if (includes_str output ''[Merger]'' \<or> includes_str output ''Merging formats'')
         \<and> \<not> isMerging s
      then (sendEvent (Merging MergingStarted) (s\<lparr>isMerging := True\<rparr>))
             \<lparr>mergeUpdateInterval := True\<rparr>
      else s)"

definition onStdout :: "string \<Rightarrow> dl_state \<Rightarrow> dl_state" where
  "onStdout output s = parseProgress output (detectMerging output s)"

definition detectError :: "string \<Rightarrow> dl_state \<Rightarrow> dl_state" where
  "detectError output s =
     (if includes_str output ''ERROR:'' \<or> includes_str output ''Conversion failed''
      then sendEvent (Error ProcessingFailed) s else s)"

definition onStderr :: "string \<Rightarrow> dl_state \<Rightarrow> dl_state" where
  "onStderr output s = parseProgress output (detectMerging output (detectError output s))"

definition onInterval :: "dl_state \<Rightarrow> dl_state" where
  \<comment> \<open>the interval timer fires\<close>
  "onInterval s = (if mergeUpdateInterval s then sendEvent (Merging StillMerging) s else s)"

definition maxAttempts :: nat where
  "maxAttempts = 50"

definition afterWait :: "dl_state \<Rightarrow> dl_state" where
  \<comment> \<open>the \<open>close\<close> callback with exit code 0, from the end of its waiting loop\<close>
  "afterWait s =
     res_end
       (if tempFileExists s
        then sendEvent Complete (s\<lparr>downloadSuccess := True\<rparr>)
        else sendEvent (Error FileNotFound) s)"

definition waitLoop :: "nat \<Rightarrow> dl_state \<Rightarrow> dl_state" where
  \<comment> \<open>the loop test with \<open>attempts = n\<close>: suspend on the 100 ms timer, or go on\<close>
  "waitLoop n s =
     (if \<not> tempFileExists s \<and> n < maxAttempts then s\<lparr>attempts := Some n\<rparr>
      else afterWait (s\<lparr>attempts := None\<rparr>))"

definition onClose :: "int option \<Rightarrow> dl_state \<Rightarrow> dl_state" where
  \<comment> \<open>the subprocess's \<open>close\<close> event, emitted once; \<open>None\<close> is the code \<open>null\<close> of a
      subprocess ended by a signal. The \<open>once('close')\<close> listeners clear the interval timer
      after the synchronous part of the \<open>close\<close> callback.\<close>
  "onClose code s =
     (if procClosed s then s
      else
        (let s1 = s\<lparr>procClosed := True\<rparr>;
             s2 = (if code = Some 0 then waitLoop 0 s1
                   else res_end (unlinkIfExists
                          (sendEvent (Error (if code = Some 1 then MergeFailed else ExitCode code)) s1)))
         in s2\<lparr>mergeUpdateInterval := False\<rparr>))"

definition onWaitTimer :: "dl_state \<Rightarrow> dl_state" where
  \<comment> \<open>the 100 ms timer of the waiting loop fires: \<open>attempts++\<close>, then the loop test\<close>
  "onWaitTimer s = (case attempts s of None \<Rightarrow> s | Some n \<Rightarrow> waitLoop (n + 1) s)"

definition onProcError :: "string \<Rightarrow> dl_state \<Rightarrow> dl_state" where
  "onProcError msg s = res_end (unlinkIfExists (sendEvent (Error (SpawnFailed msg)) s))"

definition onReqClose :: "dl_state \<Rightarrow> dl_state" where
  "onReqClose s =
     (let s1 = s\<lparr>killCalls := killCalls s + 1\<rparr>
      in if \<not> downloadSuccess s1 \<and> tempFileExists s1
         then s1\<lparr>tempFileExists := False, unlinkCalls := unlinkCalls s1 + 1\<rparr>
         else s1)"

datatype occurrence =
    Stdout string
  | Stderr string
  | IntervalTimer
  | ProcClose "int option"
  | WaitTimer
  | ProcError string
  | ReqClose
  | FileWritten        \<comment> \<open>the subprocess creates the staging file\<close>

fun step :: "dl_state \<Rightarrow> occurrence \<Rightarrow> dl_state" where
  "step s (Stdout output) = onStdout output s"
| "step s (Stderr output) = onStderr output s"
| "step s IntervalTimer = onInterval s"
| "step s (ProcClose code) = onClose code s"
| "step s WaitTimer = onWaitTimer s"
| "step s (ProcError msg) = onProcError msg s"
| "step s ReqClose = onReqClose s"
| "step s FileWritten = s\<lparr>tempFileExists := True\<rparr>"

definition run :: "occurrence list \<Rightarrow> dl_state" where
  "run os = foldl step initial os"

definition emitted :: "dl_state \<Rightarrow> event list" where
  \<comment> \<open>the events that reach the client: those written before the response is ended\<close>
  "emitted s = [ev. Write ev \<leftarrow> takeWhile (\<lambda>c. c \<noteq> End) (res_log s)]"

definition sendEventCalls :: "dl_state \<Rightarrow> event list" where
  \<comment> \<open>every event passed to \<open>sendEvent\<close>, in order\<close>
  "sendEventCalls s = [ev. Write ev \<leftarrow> res_log s]"

definition progressValues :: "event list \<Rightarrow> int list" where
  "progressValues evs = [p. Progress p \<leftarrow> evs]"

definition terminal :: "event \<Rightarrow> bool" where
  "terminal ev = (case ev of Complete \<Rightarrow> True | Error f \<Rightarrow> True | _ \<Rightarrow> False)"

subsection \<open>Invariants of the handler's variables\<close>

definition progressLog :: "dl_state \<Rightarrow> int list" where
  \<comment> \<open>the percentages of the \<open>progress\<close> events passed to \<open>sendEvent\<close>, in order\<close>
  "progressLog s = progressValues (sendEventCalls s)"

definition progress_ok :: "dl_state \<Rightarrow> bool" where
  "progress_ok s =
     (sorted_wrt (<) (progressLog s) \<and> progressLog s \<noteq> [] \<and>
      last (progressLog s) = \<lfloor>lastSentProgress s\<rfloor>)"

definition ended :: "dl_state \<Rightarrow> bool" where
  \<comment> \<open>\<open>res.end()\<close> has been called\<close>
  "ended s = (End \<in> set (res_log s))"

definition emit_ok :: "dl_state \<Rightarrow> bool" where
  "emit_ok s =
     ((ended s \<longrightarrow> emitted s \<noteq> [] \<and> terminal (last (emitted s))) \<and>
      (\<not> ended s \<longrightarrow> Complete \<notin> set (emitted s)) \<and>
      (Complete \<in> set (emitted s) \<longrightarrow>
         last (emitted s) = Complete \<and> Complete \<notin> set (butlast (emitted s))))"

definition success_ok :: "dl_state \<Rightarrow> bool" where
  "success_ok s = (downloadSuccess s = (Complete \<in> set (sendEventCalls s)))"

subsection \<open>Example runs\<close>

definition error_then_exit :: "occurrence list" where
  "error_then_exit = [Stderr ''ERROR: unable to download video data'', ProcClose (Some 1)]"

definition successful_run :: "occurrence list" where
  "successful_run = [FileWritten, ProcClose (Some 0)]"

definition cancelled_run :: "occurrence list" where
  "cancelled_run = [FileWritten, Stderr ''[Merger] Merging formats into v.mp4'']"

section \<open>Paths and the credential file (\<open>src/utils/cookies.ts\<close>)\<close>

text \<open>
  \<open>path.normalize\<close> and \<open>path.join\<close> are Node's POSIX functions: a path is cut at the
  slashes; empty segments and \<open>.\<close> are dropped; \<open>..\<close> removes the segment before it, or is kept
  when there is none to remove and the path is relative; a trailing slash is kept.
\<close>

fun split_path :: "string \<Rightarrow> string list" where
  "split_path [] = [[]]"
| "split_path (c # cs) =
     (if c = CHR ''/'' then [] # split_path cs
      else (case split_path cs of [] \<Rightarrow> [[c]] | seg # segs \<Rightarrow> (c # seg) # segs))"

fun joinSegments :: "string list \<Rightarrow> string" where
  "joinSegments [] = []"
| "joinSegments [s] = s"
| "joinSegments (s # t # r) = s @ ''/'' @ joinSegments (t # r)"

definition pushSegment :: "bool \<Rightarrow> string list \<Rightarrow> string \<Rightarrow> string list" where
  "pushSegment allowAboveRoot res seg =
     (if seg = [] \<or> seg = ''.'' then res
      else if seg = ''..'' then
        (if res \<noteq> [] \<and> last res \<noteq> ''..'' then butlast res
         else if allowAboveRoot then res @ [''..'']
         else res)
      else res @ [seg])"

definition normalize :: "string \<Rightarrow> string" where
  "normalize p =
     (if p = [] then ''.''
      else
        (let isAbsolute = (hd p = CHR ''/'');
             trailingSeparator = (last p = CHR ''/'');
             body = joinSegments (foldl (pushSegment (\<not> isAbsolute)) [] (split_path p))
         in if body = [] then (if isAbsolute then ''/'' else if trailingSeparator then ''./'' else ''.'')
            else (if isAbsolute then ''/'' else []) @ body
                   @ (if trailingSeparator then ''/'' else [])))"

definition path_join :: "string list \<Rightarrow> string" where
  "path_join parts =
     (let joined = joinSegments (filter (\<lambda>s. s \<noteq> []) parts)
      in if joined = [] then ''.'' else normalize joined)"

record env =
  cwd :: string                        \<comment> \<open>\<open>process.cwd()\<close>\<close>
  existsSync :: "string \<Rightarrow> bool"        \<comment> \<open>\<open>fs.existsSync\<close>\<close>

definition getCookiesFilePath :: "env \<Rightarrow> string option" where
  "getCookiesFilePath e =
     (let possiblePaths =
            [path_join [cwd e, ''youtube-cookies.txt''], path_join [cwd e, ''cookies.txt'']]
      in List.find (existsSync e) possiblePaths)"

definition getCookiesArgs :: "env \<Rightarrow> bool \<Rightarrow> string list" where
  \<comment> \<open>\<open>if (cookiesPath)\<close> is false for \<open>null\<close> and for the empty string\<close>
  "getCookiesArgs e forceUseCookies =
     (if \<not> forceUseCookies then []
      else (case getCookiesFilePath e of
              None \<Rightarrow> []
            | Some cookiesPath \<Rightarrow> if cookiesPath \<noteq> [] then [''--cookies'', cookiesPath] else []))"

definition hasCookiesFile :: "env \<Rightarrow> bool" where
  "hasCookiesFile e = (getCookiesFilePath e \<noteq> None)"

subsection \<open>\<open>executeWithCookieRetry\<close>\<close>

text \<open>
  \<open>executeCommand\<close> runs a subprocess. Its model is an oracle: the outcome of the \<open>n\<close>-th run
  (counted from 0) for a command and its arguments, \<open>Inr\<close> the captured standard output,
  \<open>Inl\<close> the message of the error the promise is rejected with; and the files that exist
  once \<open>n\<close> runs have finished. An argument is \<open>None\<close> where the array holds \<open>undefined\<close>.
\<close>

record system =
  workdir :: string
  files_after :: "nat \<Rightarrow> string \<Rightarrow> bool"
  executeCommand :: "nat \<Rightarrow> string \<Rightarrow> string option list \<Rightarrow> string + string"

record ExecuteResult =
  outputText :: string      \<comment> \<open>the field \<open>output\<close>\<close>
  usedCookies :: bool

definition env_after :: "system \<Rightarrow> nat \<Rightarrow> env" where
  "env_after sys n = \<lparr>cwd = workdir sys, existsSync = files_after sys n\<rparr>"

definition argsWithCookies :: "string list \<Rightarrow> string list \<Rightarrow> string option list" where
  \<comment> \<open>\<open>[...args.slice(0, -1), ...cookiesArgs, args[args.length - 1]]\<close>\<close>
  "argsWithCookies cookiesArgs args =
     map Some (butlast args) @ map Some cookiesArgs
       @ [if args = [] then None else Some (last args)]"

definition needsAuth :: "string \<Rightarrow> bool" where
  "needsAuth errorMsg =
     (includes_str errorMsg ''Sign in'' \<or> includes_str errorMsg ''bot''
      \<or> includes_str errorMsg ''not available'')"

definition executeWithCookieRetry ::
  "system \<Rightarrow> string \<Rightarrow> string list \<Rightarrow> (string + ExecuteResult) \<times> string option list list" where
  \<comment> \<open>the result (\<open>Inl\<close> the error thrown) and the argument lists of the runs made, in order\<close>
  "executeWithCookieRetry sys command args =
     (if hasCookiesFile (env_after sys 0) then
        (let withCookies = argsWithCookies (getCookiesArgs (env_after sys 0) True) args
         in case executeCommand sys 0 command withCookies of
              Inr out \<Rightarrow> (Inr \<lparr>outputText = out, usedCookies = True\<rparr>, [withCookies])
            | Inl error \<Rightarrow>
                (case executeCommand sys 1 command (map Some args) of
                   Inr out \<Rightarrow>
                     (Inr \<lparr>outputText = out, usedCookies = False\<rparr>, [withCookies, map Some args])
                 | Inl fallbackError \<Rightarrow> (Inl error, [withCookies, map Some args])))
      else
        (case executeCommand sys 0 command (map Some args) of
           Inr out \<Rightarrow> (Inr \<lparr>outputText = out, usedCookies = False\<rparr>, [map Some args])
         | Inl error \<Rightarrow>
             if needsAuth error \<and> hasCookiesFile (env_after sys 1) then
               (let withCookies = argsWithCookies (getCookiesArgs (env_after sys 1) True) args
                in case executeCommand sys 1 command withCookies of
                     Inr out \<Rightarrow>
                       (Inr \<lparr>outputText = out, usedCookies = True\<rparr>, [map Some args, withCookies])
                   | Inl retryError \<Rightarrow> (Inl retryError, [map Some args, withCookies]))
             else (Inl error, [map Some args])))"

definition cookie_env :: env where
  "cookie_env = \<lparr>cwd = ''/app'', existsSync = (\<lambda>p. p = ''/app/cookies.txt'')\<rparr>"

definition failing_system :: system where
  "failing_system =
     \<lparr>workdir = ''/app'',
      files_after = (\<lambda>n p. p = ''/app/cookies.txt''),
      executeCommand = (\<lambda>n command args.
         if n = 0 then Inl ''Command failed: with cookies''
         else Inl ''Command failed: without cookies'')\<rparr>"

definition recovering_system :: system where
  "recovering_system =
     \<lparr>workdir = ''/app'',
      files_after = (\<lambda>n p. p = ''/app/cookies.txt''),
      executeCommand = (\<lambda>n command args.
         if n = 0 then Inl ''Command failed: with cookies'' else Inr ''formats'')\<rparr>"

section \<open>The format decision of the download handlers\<close>

text \<open>
  \<open>inspection\<close> stands for \<open>JSON.parse(execSync(...).toString())\<close>: \<open>Inl\<close> when \<open>execSync\<close> or
  \<open>JSON.parse\<close> throws, \<open>Inr\<close> the parsed value. Reading a property of \<open>null\<close> throws as well,
  inside the same \<open>try\<close>.
\<close>

datatype json =
    JNull
  | JBool bool
  | JNum real
  | JStr string
  | JArr "json list"
  | JObj "(string \<times> json) list"

datatype jsvalue = Undefined | Val json

datatype query = QAbsent | QStr string | QList "string list"
  \<comment> \<open>a field of \<open>req.query\<close>: \<open>undefined\<close>, a string, or an array of strings\<close>

fun truthy :: "jsvalue \<Rightarrow> bool" where
  "truthy Undefined = False"
| "truthy (Val JNull) = False"
| "truthy (Val (JBool b)) = b"
| "truthy (Val (JNum n)) = (n \<noteq> 0)"
| "truthy (Val (JStr s)) = (s \<noteq> [])"
| "truthy (Val (JArr xs)) = True"
| "truthy (Val (JObj kvs)) = True"

fun property :: "json \<Rightarrow> string \<Rightarrow> jsvalue option" where
  \<comment> \<open>\<open>data.acodec\<close>, \<open>data.vcodec\<close>; \<open>None\<close>: a TypeError is thrown. The last of several equal
      keys of an object counts.\<close>
  "property JNull k = None"
| "property (JObj kvs) k = (case map_of (rev kvs) k of None \<Rightarrow> Some Undefined | Some v \<Rightarrow> Some (Val v))"
| "property v k = Some Undefined"

record format_decision =
  hasAudio :: bool
  isAudio :: bool
  formatToDownload :: string

definition fallbackDetection :: "string \<Rightarrow> query \<Rightarrow> bool \<times> bool" where
  \<comment> \<open>the \<open>catch\<close> block, "Fallback to old detection method": (\<open>hasAudio\<close>, \<open>isAudio\<close>)\<close>
  "fallbackDetection formatId isCombined =
     (let isAudio = (includes_str formatId ''251'' \<or> includes_str formatId ''140'');
          hasAudio = (isCombined = QStr ''true'' \<or> isAudio)
      in (hasAudio, isAudio))"

definition inspectedDetection :: "json \<Rightarrow> (bool \<times> bool) option" where
  \<comment> \<open>the \<open>try\<close> block after \<open>JSON.parse\<close>; \<open>None\<close>: it throws\<close>
  "inspectedDetection data =
     (case (property data ''acodec'', property data ''vcodec'') of
        (Some acodec, Some vcodec) \<Rightarrow>
          Some (truthy acodec \<and> acodec \<noteq> Val (JStr ''none''),
                vcodec = Val (JStr ''none'') \<or> \<not> truthy vcodec)
      | _ \<Rightarrow> None)"

definition decideFormat :: "string + json \<Rightarrow> string \<Rightarrow> query \<Rightarrow> format_decision" where
  "decideFormat inspection formatId isCombined =
     (let (hasAudio, isAudio) =
            (case inspection of
               Inl error \<Rightarrow> fallbackDetection formatId isCombined
             | Inr data \<Rightarrow>
                 (case inspectedDetection data of
                    None \<Rightarrow> fallbackDetection formatId isCombined
                  | Some r \<Rightarrow> r))
      in \<lparr>hasAudio = hasAudio, isAudio = isAudio,
          formatToDownload = (if hasAudio then formatId else formatId @ ''+bestaudio'')\<rparr>)"

section \<open>The file-serving handler (\<open>download-file\<close>)\<close>

datatype response =
    MethodNotAllowed       \<comment> \<open>405\<close>
  | BadRequest             \<comment> \<open>400\<close>
  | Forbidden              \<comment> \<open>403\<close>
  | NotFound               \<comment> \<open>404\<close>
  | Unhandled              \<comment> \<open>\<open>readdirSync\<close> throws outside the \<open>try\<close>\<close>
  | StreamFailed string    \<comment> \<open>500: the read stream opened on this path emits \<open>error\<close> (a
                               directory, an unreadable file), and \<open>cleanup\<close> runs\<close>
  | Streamed string        \<comment> \<open>the file at this path is opened and piped to the response, and
                               deleted by \<open>cleanup\<close> afterwards\<close>

definition DOWNLOADS_DIR :: "env \<Rightarrow> string" where
  "DOWNLOADS_DIR e = path_join [cwd e, ''downloads'']"

definition download_file :: "env \<Rightarrow> (string \<Rightarrow> bool) \<Rightarrow> string \<Rightarrow> query \<Rightarrow> response" where
  \<comment> \<open>\<open>readable\<close>: a read stream on the path delivers the file (a regular file that can be
      read)\<close>
  "download_file e readable method filePath =
     (if method \<noteq> ''GET'' then MethodNotAllowed
      else (case filePath of
              QStr fp \<Rightarrow>
                if fp = [] then BadRequest
                else if \<not> startsWith (normalize fp) (DOWNLOADS_DIR e) then Forbidden
                else if \<not> existsSync e (DOWNLOADS_DIR e) then Unhandled
                else if \<not> existsSync e fp then NotFound
                else if \<not> readable fp then StreamFailed fp
                else Streamed fp
            | _ \<Rightarrow> BadRequest))"

definition insideDirectory :: "string \<Rightarrow> string \<Rightarrow> bool" where
  \<comment> \<open>what the claim asks of a path: it is the directory or lies below it\<close>
  "insideDirectory dir p = (p = dir \<or> startsWith p (dir @ ''/''))"

definition sibling_readable :: "string \<Rightarrow> bool" where
  \<comment> \<open>the one regular file of the example\<close>
  "sibling_readable p = (p = ''/app/downloads-private/key.mp4'')"

definition sibling_env :: env where
  "sibling_env =
     \<lparr>cwd = ''/app'',
      existsSync = (\<lambda>p. p = ''/app/downloads'' \<or> p = ''/app/downloads-private/key.mp4'')\<rparr>"

section \<open>The cleanup of a staging file\<close>

text \<open>
  \<open>cleanup\<close> of the streaming handler (\<open>src/unnamed/part_001\<close>): the guard, then the body, which
  destroys the stream, waits 100 ms and unlinks the file if it exists. The wait splits the
  body in two: other callbacks run between the two halves.
\<close>

record cleanup_state =
  cleanupDone :: bool
  destroyCalls :: nat           \<comment> \<open>calls of \<open>fileStream.destroy()\<close>\<close>
  bodiesWaiting :: nat          \<comment> \<open>bodies of \<open>cleanup\<close> suspended at the 100 ms wait\<close>
  bodyRuns :: nat               \<comment> \<open>times the guard has been passed\<close>
  mergedFileExists :: bool
  unlinkAttempts :: nat         \<comment> \<open>calls of \<open>unlinkAsync(tempFilePath)\<close>\<close>

datatype trigger = ResFinish | ReqClosed | StreamFailed

datatype cleanup_occurrence =
    Fires trigger
  | DelayElapsed bool     \<comment> \<open>the wait of a suspended body ends; the flag: \<open>unlinkAsync\<close> succeeds\<close>

definition cleanup :: "cleanup_state \<Rightarrow> cleanup_state" where
  "cleanup s =
     (if cleanupDone s then s
      else s\<lparr>cleanupDone := True, bodyRuns := bodyRuns s + 1,
             destroyCalls := destroyCalls s + 1, bodiesWaiting := bodiesWaiting s + 1\<rparr>)"

definition afterDelay :: "bool \<Rightarrow> cleanup_state \<Rightarrow> cleanup_state" where
  "afterDelay ok s =
     (if bodiesWaiting s = 0 then s
      else
        (let s1 = s\<lparr>bodiesWaiting := bodiesWaiting s - 1\<rparr>
         in if mergedFileExists s1
            then s1\<lparr>unlinkAttempts := unlinkAttempts s1 + 1, mergedFileExists := \<not> ok\<rparr>
            else s1))"

fun cleanup_step :: "cleanup_state \<Rightarrow> cleanup_occurrence \<Rightarrow> cleanup_state" where
  "cleanup_step s (Fires t) = cleanup s"
| "cleanup_step s (DelayElapsed ok) = afterDelay ok s"

definition cleanup_initial :: "bool \<Rightarrow> cleanup_state" where
  "cleanup_initial exists0 =
     \<lparr>cleanupDone = False, destroyCalls = 0, bodiesWaiting = 0, bodyRuns = 0,
      mergedFileExists = exists0, unlinkAttempts = 0\<rparr>"

definition cleanup_run :: "bool \<Rightarrow> cleanup_occurrence list \<Rightarrow> cleanup_state" where
  "cleanup_run exists0 os = foldl cleanup_step (cleanup_initial exists0) os"

definition fired :: "cleanup_occurrence list \<Rightarrow> bool" where
  "fired os = list_ex (\<lambda>x. case x of Fires t \<Rightarrow> True | DelayElapsed ok \<Rightarrow> False) os"

text \<open>
  \<open>cleanup\<close> of the file-serving handler (\<open>download-file\<close>): the same guard; the body waits
  1000 ms, and after a failed unlink tries once more 3000 ms later. Several of its triggers
  call it through a 2000 ms timer.
\<close>

record serve_state =
  df_cleanupDone :: bool
  df_streamEnded :: bool
  df_streamDestroyed :: bool
  df_timers :: nat              \<comment> \<open>pending \<open>setTimeout(() => cleanup(...), 2000)\<close>\<close>
  df_waiting :: nat             \<comment> \<open>bodies of \<open>cleanup\<close> suspended at the 1000 ms wait\<close>
  df_retries :: nat             \<comment> \<open>pending retry timers\<close>
  df_bodyRuns :: nat
  df_fileExists :: bool
  df_unlinkAttempts :: nat

datatype serve_occurrence =
    FileStreamError
  | FileStreamEnd
  | FileStreamClose
  | ResponseFinish
  | ResponseClose
  | RequestClose
  | CleanupTimer          \<comment> \<open>a 2000 ms timer fires\<close>
  | WaitElapsed bool      \<comment> \<open>the 1000 ms wait of a body ends; the flag: \<open>unlinkAsync\<close> succeeds\<close>
  | RetryTimer bool       \<comment> \<open>a retry timer fires; the flag: \<open>unlinkAsync\<close> succeeds\<close>

definition df_cleanup :: "serve_state \<Rightarrow> serve_state" where
  "df_cleanup s =
     (if df_cleanupDone s then s
      else s\<lparr>df_cleanupDone := True, df_bodyRuns := df_bodyRuns s + 1,
             df_streamDestroyed := True, df_waiting := df_waiting s + 1\<rparr>)"

definition df_schedule :: "serve_state \<Rightarrow> serve_state" where
  "df_schedule s = s\<lparr>df_timers := df_timers s + 1\<rparr>"

fun serve_step :: "serve_state \<Rightarrow> serve_occurrence \<Rightarrow> serve_state" where
  "serve_step s FileStreamError = df_cleanup s"
| "serve_step s FileStreamEnd = s\<lparr>df_streamEnded := True\<rparr>"
| "serve_step s FileStreamClose = (if df_streamEnded s then df_schedule s else s)"
| "serve_step s ResponseFinish = df_schedule s"
| "serve_step s ResponseClose = (if \<not> df_streamEnded s then df_cleanup s else df_schedule s)"
| "serve_step s RequestClose = (if \<not> df_streamEnded s then df_cleanup s else s)"
| "serve_step s CleanupTimer =
     (if df_timers s = 0 then s else df_cleanup (s\<lparr>df_timers := df_timers s - 1\<rparr>))"
| "serve_step s (WaitElapsed ok) =
     (if df_waiting s = 0 then s
      else
        (let s1 = s\<lparr>df_waiting := df_waiting s - 1\<rparr>
         in if df_fileExists s1
            then (if ok then s1\<lparr>df_unlinkAttempts := df_unlinkAttempts s1 + 1, df_fileExists := False\<rparr>
                  else s1\<lparr>df_unlinkAttempts := df_unlinkAttempts s1 + 1,
                          df_retries := df_retries s1 + 1\<rparr>)
            else s1))"
| "serve_step s (RetryTimer ok) =
     (if df_retries s = 0 then s
      else
        (let s1 = s\<lparr>df_retries := df_retries s - 1\<rparr>
         in if df_fileExists s1
            then s1\<lparr>df_unlinkAttempts := df_unlinkAttempts s1 + 1, df_fileExists := \<not> ok\<rparr>
            else s1))"

definition serve_initial :: serve_state where
  "serve_initial =
     \<lparr>df_cleanupDone = False, df_streamEnded = False, df_streamDestroyed = False,
      df_timers = 0, df_waiting = 0, df_retries = 0, df_bodyRuns = 0,
      df_fileExists = True, df_unlinkAttempts = 0\<rparr>"

definition serve_run :: "serve_occurrence list \<Rightarrow> serve_state" where
  "serve_run os = foldl serve_step serve_initial os"

subsection \<open>Invariants and example runs of the two cleanups\<close>

definition cleanup_ok :: "cleanup_state \<Rightarrow> bool" where
  "cleanup_ok s =
     (bodyRuns s = (if cleanupDone s then 1 else 0) \<and> destroyCalls s = bodyRuns s \<and>
      bodiesWaiting s + unlinkAttempts s \<le> bodyRuns s)"

definition deleted_when_done :: "cleanup_state \<Rightarrow> bool" where
  "deleted_when_done s = (cleanupDone s \<and> bodiesWaiting s = 0 \<longrightarrow> \<not> mergedFileExists s)"

definition unlink_succeeds :: "cleanup_occurrence list \<Rightarrow> bool" where
  "unlink_succeeds os = list_all (\<lambda>x. case x of Fires t \<Rightarrow> True | DelayElapsed ok \<Rightarrow> ok) os"

definition serve_ok :: "serve_state \<Rightarrow> bool" where
  "serve_ok s =
     (df_bodyRuns s = (if df_cleanupDone s then 1 else 0) \<and>
      df_unlinkAttempts s + 2 * df_waiting s + df_retries s \<le> 2 * df_bodyRuns s)"

definition df_deleted_when_done :: "serve_state \<Rightarrow> bool" where
  "df_deleted_when_done s =
     (df_cleanupDone s \<and> df_waiting s = 0 \<and> df_retries s = 0 \<longrightarrow> \<not> df_fileExists s)"

definition df_retry_succeeds :: "serve_occurrence list \<Rightarrow> bool" where
  \<comment> \<open>the unlink of every retry succeeds (the first unlink of the body may fail)\<close>
  "df_retry_succeeds os =
     list_all (\<lambda>x. case x of RetryTimer ok \<Rightarrow> ok | _ \<Rightarrow> True) os"

definition df_triggers_ok :: "serve_occurrence list \<Rightarrow> serve_state \<Rightarrow> bool" where
  "df_triggers_ok os s =
     ((df_streamEnded s \<longleftrightarrow> FileStreamEnd \<in> set os) \<and>
      (FileStreamError \<in> set os \<longrightarrow> df_cleanupDone s) \<and>
      (ResponseFinish \<in> set os \<or> ResponseClose \<in> set os \<longrightarrow>
         df_cleanupDone s \<or> 0 < df_timers s) \<and>
      (RequestClose \<in> set os \<and> FileStreamEnd \<notin> set os \<longrightarrow> df_cleanupDone s))"

definition cancelled_serving :: "serve_occurrence list" where
  "cancelled_serving = [RequestClose, ResponseClose, WaitElapsed True]"

definition all_triggers :: "cleanup_occurrence list" where
  "all_triggers =
     [Fires ReqClosed, Fires ResFinish, DelayElapsed True, Fires StreamFailed, DelayElapsed True]"

definition served_and_closed :: "serve_occurrence list" where
  "served_and_closed =
     [FileStreamEnd, FileStreamClose, ResponseFinish, ResponseClose, CleanupTimer, CleanupTimer,
      RequestClose, WaitElapsed False, CleanupTimer, RetryTimer True]"

section \<open>The arithmetic of the progress parser in binary64\<close>

text \<open>
  The numbers of \<open>parseProgress\<close> are IEEE 754 binary64 values. A finite value is given by
  the real number it denotes (the two zeros are not told apart: the parser only compares
  with zero); every operation rounds the exact result to the nearest binary64 value, ties
  to the even significand. \<open>round64\<close> does so: the exponent \<open>e\<close> of a nonzero \<open>x\<close> is that of
  its binade, not below \<open>-1022\<close> (the subnormal range); one unit in the last place is
  \<open>2\<close> to the \<open>e - 52\<close>; a result of \<open>2\<close> to the \<open>1024\<close> or beyond is an infinity.
\<close>

datatype double = Fin real | PosInf | NegInf | NaN

function bitlen :: "nat \<Rightarrow> nat" where
  "bitlen n = (if n = 0 then 0 else Suc (bitlen (n div 2)))"
  by pat_completeness auto
termination
  by (relation "measure id") auto

declare bitlen.simps [simp del]

definition ilog2 :: "real \<Rightarrow> int" where
  \<comment> \<open>for \<open>0 < x\<close>: the integer \<open>k\<close> with \<open>2\<close> to the \<open>k\<close> at most \<open>x\<close> and \<open>x\<close> below \<open>2\<close> to the \<open>k + 1\<close>\<close>
  "ilog2 x = (if 1 \<le> x then int (bitlen (nat \<lfloor>x\<rfloor>)) - 1
              else - int (bitlen (nat (\<lceil>1 / x\<rceil> - 1))))"

definition pow2 :: "int \<Rightarrow> real" where
  "pow2 e = (if 0 \<le> e then 2 ^ nat e else 1 / 2 ^ nat (- e))"

definition round_even :: "real \<Rightarrow> int" where
  "round_even y =
     (let f = \<lfloor>y\<rfloor>
      in if y - of_int f < 1 / 2 then f
         else if 1 / 2 < y - of_int f then f + 1
         else if even f then f else f + 1)"

definition round64 :: "real \<Rightarrow> double" where
  "round64 x =
     (if x = 0 then Fin 0
      else
        (let a = \<bar>x\<bar>;
             e = max (ilog2 a) (- 1022);
             ulp = pow2 (e - 52);
             n = round_even (a / ulp)
         in if 1023 < e \<or> (e = 1023 \<and> n = 2 ^ 53) then (if 0 < x then PosInf else NegInf)
            else Fin (sgn x * (of_int n * ulp))))"

fun fneg :: "double \<Rightarrow> double" where
  "fneg (Fin a) = Fin (- a)"
| "fneg PosInf = NegInf"
| "fneg NegInf = PosInf"
| "fneg NaN = NaN"

fun fabs :: "double \<Rightarrow> double" where
  \<comment> \<open>\<open>Math.abs\<close>\<close>
  "fabs (Fin a) = Fin \<bar>a\<bar>"
| "fabs PosInf = PosInf"
| "fabs NegInf = PosInf"
| "fabs NaN = NaN"

fun fadd :: "double \<Rightarrow> double \<Rightarrow> double" where
  "fadd NaN y = NaN"
| "fadd x NaN = NaN"
| "fadd (Fin a) (Fin b) = round64 (a + b)"
| "fadd PosInf NegInf = NaN"
| "fadd NegInf PosInf = NaN"
| "fadd PosInf y = PosInf"
| "fadd NegInf y = NegInf"
| "fadd x PosInf = PosInf"
| "fadd x NegInf = NegInf"

declare fadd.simps [simp del]

definition fsub :: "double \<Rightarrow> double \<Rightarrow> double" where
  "fsub x y = fadd x (fneg y)"

fun fsign :: "double \<Rightarrow> real" where
  \<comment> \<open>the sign of a value that is not NaN; zero counts as positive\<close>
  "fsign (Fin a) = (if a < 0 then - 1 else 1)"
| "fsign PosInf = 1"
| "fsign NegInf = - 1"
| "fsign NaN = 1"

definition signed_inf :: "real \<Rightarrow> double" where
  "signed_inf s = (if s < 0 then NegInf else PosInf)"

fun fmul :: "double \<Rightarrow> double \<Rightarrow> double" where
  "fmul NaN y = NaN"
| "fmul x NaN = NaN"
| "fmul (Fin a) (Fin b) = round64 (a * b)"
| "fmul (Fin a) y = (if a = 0 then NaN else signed_inf (fsign (Fin a) * fsign y))"
| "fmul x (Fin b) = (if b = 0 then NaN else signed_inf (fsign x * fsign (Fin b)))"
| "fmul x y = signed_inf (fsign x * fsign y)"

fun fdiv :: "double \<Rightarrow> double \<Rightarrow> double" where
  "fdiv NaN y = NaN"
| "fdiv x NaN = NaN"
| "fdiv (Fin a) (Fin b) =
     (if b = 0 then (if a = 0 then NaN else signed_inf (fsign (Fin a))) else round64 (a / b))"
| "fdiv (Fin a) y = Fin 0"
| "fdiv x (Fin b) = signed_inf (fsign x * fsign (Fin b))"
| "fdiv x y = NaN"

declare fmul.simps [simp del] fdiv.simps [simp del]

fun fgt :: "double \<Rightarrow> double \<Rightarrow> bool" where
  \<comment> \<open>the comparison \<open>x > y\<close>, false as soon as one side is NaN\<close>
  "fgt NaN y = False"
| "fgt x NaN = False"
| "fgt (Fin a) (Fin b) = (b < a)"
| "fgt PosInf y = (y \<noteq> PosInf)"
| "fgt x NegInf = (x \<noteq> NegInf)"
| "fgt x y = False"

definition feq :: "double \<Rightarrow> double \<Rightarrow> bool" where
  \<comment> \<open>the comparison \<open>x === y\<close> of two numbers\<close>
  "feq x y = (x \<noteq> NaN \<and> x = y)"

fun ffloor :: "double \<Rightarrow> double" where
  \<comment> \<open>\<open>Math.floor\<close>\<close>
  "ffloor (Fin a) = Fin (of_int \<lfloor>a\<rfloor>)"
| "ffloor x = x"

subsection \<open>\<open>parseProgress\<close> on binary64 values\<close>

text \<open>
  The variables \<open>firstFileSize\<close>, \<open>secondFileSize\<close>, \<open>currentFileProgress\<close>,
  \<open>firstFileComplete\<close>, \<open>lastSentProgress\<close> and \<open>accumulatedMB\<close> are read and written by
  \<open>parseProgress\<close> only, which the \<open>stdout\<close> and the \<open>stderr\<close> callback call with each chunk.
  Their values are those of this section: the same pattern matches as above, the same
  statements, every number a binary64 value. \<open>sent64\<close> holds the percentages passed to
  \<open>sendEvent\<close>, the initial 0 first.
\<close>

definition parseFloat64 :: "string \<Rightarrow> double" where
  \<comment> \<open>\<open>parseFloat\<close> on a text of the shape \<open>\d+\.?\d*\<close>: the binary64 value nearest to its
      decimal value\<close>
  "parseFloat64 t = round64 (parseFloat t)"

definition convertToMB64 :: "string \<Rightarrow> double \<Rightarrow> double" where
  "convertToMB64 unit sizeValue =
     (if unit = ''gib'' then fmul sizeValue (Fin 1024)
      else if unit = ''kib'' then fdiv sizeValue (Fin 1024)
      else sizeValue)"

definition parseLine64 :: "string \<Rightarrow> (double \<times> double) option" where
  "parseLine64 output =
     (case progressMatch output of
        None \<Rightarrow> None
      | Some pm \<Rightarrow>
          (case sizeMatch output of
             None \<Rightarrow> None
           | Some (tilde, num, u) \<Rightarrow>
               Some (parseFloat64 pm, convertToMB64 (map toLowerCase u) (parseFloat64 num))))"

record progress64 =
  firstFileSize64 :: double
  secondFileSize64 :: double
  currentFileProgress64 :: double
  firstFileComplete64 :: bool
  lastSentProgress64 :: double
  accumulatedMB64 :: double
  sent64 :: "double list"

definition initial64 :: progress64 where
  "initial64 =
     \<lparr>firstFileSize64 = Fin 0, secondFileSize64 = Fin 0, currentFileProgress64 = Fin 0,
      firstFileComplete64 = False, lastSentProgress64 = Fin 0, accumulatedMB64 = Fin 0,
      sent64 = [Fin 0]\<rparr>"

definition tolerance64 :: double where
  \<comment> \<open>the literal \<open>0.1\<close>\<close>
  "tolerance64 = round64 (1 / 10)"

definition trackSizes64 :: "double \<Rightarrow> progress64 \<Rightarrow> progress64" where
  "trackSizes64 sizeMB s =
     (if feq (firstFileSize64 s) (Fin 0) then s\<lparr>firstFileSize64 := sizeMB\<rparr>
      else if \<not> firstFileComplete64 s
              \<and> fgt (fabs (fsub sizeMB (firstFileSize64 s))) tolerance64
      then s\<lparr>firstFileComplete64 := True, secondFileSize64 := sizeMB,
             accumulatedMB64 := firstFileSize64 s\<rparr>
      else s)"

definition totalSize64 :: "progress64 \<Rightarrow> double" where
  "totalSize64 s =
     (if firstFileComplete64 s then fadd (firstFileSize64 s) (secondFileSize64 s)
      else firstFileSize64 s)"

definition totalDownloaded64 :: "progress64 \<Rightarrow> double" where
  "totalDownloaded64 s =
     (if firstFileComplete64 s
      then fadd (accumulatedMB64 s)
             (fdiv (fmul (secondFileSize64 s) (currentFileProgress64 s)) (Fin 100))
      else fdiv (fmul (firstFileSize64 s) (currentFileProgress64 s)) (Fin 100))"

definition combinedProgress64 :: "progress64 \<Rightarrow> double" where
  "combinedProgress64 s =
     (if fgt (totalSize64 s) (Fin 0)
      then fmul (fdiv (totalDownloaded64 s) (totalSize64 s)) (Fin 100)
      else Fin 0)"

definition parseProgress64 :: "progress64 \<Rightarrow> string \<Rightarrow> progress64" where
  "parseProgress64 s output =
     (case parseLine64 output of
        None \<Rightarrow> s
      | Some (progress, sizeMB) \<Rightarrow>
          (let s1 = (trackSizes64 sizeMB s)\<lparr>currentFileProgress64 := progress\<rparr>;
               roundedProgress = ffloor (combinedProgress64 s1)
           in if fgt roundedProgress (ffloor (lastSentProgress64 s1))
              then s1\<lparr>lastSentProgress64 := combinedProgress64 s1,
                      sent64 := sent64 s1 @ [roundedProgress]\<rparr>
              else s1))"

definition run64 :: "string list \<Rightarrow> progress64" where
  "run64 outputs = foldl parseProgress64 initial64 outputs"



definition sent64_ok :: "progress64 \<Rightarrow> bool" where
  "sent64_ok s =
     (sorted_wrt (\<lambda>a b. fgt b a) (sent64 s) \<and> sent64 s \<noteq> [] \<and>
      last (sent64 s) = ffloor (lastSentProgress64 s))"




section \<open>Properties of the progress parser\<close>

lemmas parse_eval = startsWith_def isDigit_def isSpace_def toLowerCase_def digitVal_def
  natOfDigits_def parseFloat_def matchSpaces_def matchNumber_def matchUnit_def matchesOf_def
  matchTilde_def progressAt_def progressMatch_def sizeAt_def sizeMatch_def convertToMB_def
  parseLine_def

lemma regexSearch_Some: "regexSearch m s = Some r \<Longrightarrow> \<exists>t. m t = Some r"
  by (induction s) (auto split: option.splits)

lemma matchUnit_Some:
  "matchUnit s = Some u \<Longrightarrow> map toLowerCase u \<in> {''mib'', ''kib'', ''gib''}"
  unfolding matchUnit_def by (metis option.distinct(1) option.inject)

lemma sizeAt_unit:
  assumes "sizeAt t = Some (tilde, num, u)"
  shows "map toLowerCase u \<in> {''mib'', ''kib'', ''gib''}"
proof -
  from assms obtain r2 where "matchUnit r2 = Some u"
    unfolding sizeAt_def
    by (auto split: if_splits option.splits prod.splits)
  then show ?thesis by (rule matchUnit_Some)
qed

lemma sizeMatch_unit:
  assumes "sizeMatch out = Some (tilde, num, u)"
  shows "map toLowerCase u \<in> {''mib'', ''kib'', ''gib''}"
proof -
  from assms have "regexSearch sizeAt out = Some (tilde, num, u)"
    by (simp only: sizeMatch_def)
  then have "\<exists>t. sizeAt t = Some (tilde, num, u)" by (rule regexSearch_Some)
  then obtain t where "sizeAt t = Some (tilde, num, u)" ..
  then show ?thesis by (rule sizeAt_unit)
qed

lemma convertToMB_units:
  "convertToMB ''mib'' v = v" "convertToMB ''kib'' v = v / 1024" "convertToMB ''gib'' v = v * 1024"
  by (simp_all add: convertToMB_def)

text \<open>
  Claim C7. Whenever both patterns match a chunk of output, the size handed on by the parser
  is the matched figure normalised to megabytes with binary factors: the unit (compared in
  lower case) is one of KiB, MiB and GiB, a KiB figure is divided by 1024, a MiB figure is
  taken as it is, and a GiB figure is multiplied by 1024; the percent is the matched percent
  figure.
\<close>

theorem size_unit_conversion:
  assumes "progressMatch out = Some pm" and "sizeMatch out = Some (tilde, num, u)"
  shows "(map toLowerCase u = ''kib'' \<and> parseLine out = Some (parseFloat pm, parseFloat num / 1024))
       \<or> (map toLowerCase u = ''mib'' \<and> parseLine out = Some (parseFloat pm, parseFloat num))
       \<or> (map toLowerCase u = ''gib'' \<and> parseLine out = Some (parseFloat pm, parseFloat num * 1024))"
proof -
  have pl: "parseLine out
      = Some (parseFloat pm, convertToMB (map toLowerCase u) (parseFloat num))"
    using assms by (simp add: parseLine_def)
  have "map toLowerCase u \<in> {''mib'', ''kib'', ''gib''}"
    using assms(2) by (rule sizeMatch_unit)
  then consider "map toLowerCase u = ''mib''" | "map toLowerCase u = ''kib''"
    | "map toLowerCase u = ''gib''"
    by blast
  then show ?thesis
  proof cases
    case 1
    with pl show ?thesis by (simp only: convertToMB_units) simp
  next
    case 2
    with pl show ?thesis by (simp only: convertToMB_units) simp
  next
    case 3
    with pl show ?thesis by (simp only: convertToMB_units) simp
  qed
qed

lemma match_mib:
  "progressMatch ''[download]  45.5% of 50.00MiB'' = Some ''45.5''"
  "sizeMatch ''[download]  45.5% of 50.00MiB'' = Some (False, ''50.00'', ''MiB'')"
  by (simp_all add: parse_eval)

lemma match_gib:
  "progressMatch ''[download]   3.0% of ~2.00GiB'' = Some ''3.0''"
  "sizeMatch ''[download]   3.0% of ~2.00GiB'' = Some (True, ''2.00'', ''GiB'')"
  by (simp_all add: parse_eval)

lemma match_kib:
  "progressMatch ''[download] 100% of 512.00KiB'' = Some ''100''"
  "sizeMatch ''[download] 100% of 512.00KiB'' = Some (False, ''512.00'', ''KiB'')"
  by (simp_all add: parse_eval)

lemma parseFloat_examples:
  "parseFloat ''45.5'' = 45.5" "parseFloat ''50.00'' = 50" "parseFloat ''3.0'' = 3"
  "parseFloat ''2.00'' = 2" "parseFloat ''100'' = 100" "parseFloat ''512.00'' = 512"
  by (simp_all add: parseFloat_def isDigit_def natOfDigits_def digitVal_def)

text \<open>
  The line \<open>[download]  45.5% of 50.00MiB\<close> gives 45.5 percent of 50 MB, a size of
  \<open>2.00GiB\<close> gives 2048 MB, and \<open>512.00KiB\<close> gives half a megabyte.
\<close>

theorem size_unit_conversion_witness:
  "progressMatch ''[download]  45.5% of 50.00MiB'' = Some ''45.5''
   \<and> sizeMatch ''[download]  45.5% of 50.00MiB'' = Some (False, ''50.00'', ''MiB'')
   \<and> parseLine ''[download]  45.5% of 50.00MiB'' = Some (45.5, 50)
   \<and> progressMatch ''[download]   3.0% of ~2.00GiB'' = Some ''3.0''
   \<and> sizeMatch ''[download]   3.0% of ~2.00GiB'' = Some (True, ''2.00'', ''GiB'')
   \<and> parseLine ''[download]   3.0% of ~2.00GiB'' = Some (3, 2048)
   \<and> progressMatch ''[download] 100% of 512.00KiB'' = Some ''100''
   \<and> sizeMatch ''[download] 100% of 512.00KiB'' = Some (False, ''512.00'', ''KiB'')
   \<and> parseLine ''[download] 100% of 512.00KiB'' = Some (100, 1 / 2)"
proof -
  have a: "parseLine ''[download]  45.5% of 50.00MiB'' = Some (45.5, 50)"
    using size_unit_conversion [OF match_mib]
    by (simp add: toLowerCase_def parseFloat_examples)
  have b: "parseLine ''[download]   3.0% of ~2.00GiB'' = Some (3, 2048)"
    using size_unit_conversion [OF match_gib]
    by (simp add: toLowerCase_def parseFloat_examples)
  have c: "parseLine ''[download] 100% of 512.00KiB'' = Some (100, 1 / 2)"
    using size_unit_conversion [OF match_kib]
    by (simp add: toLowerCase_def parseFloat_examples)
  show ?thesis by (simp only: a b c match_mib match_gib match_kib simp_thms)
qed

section \<open>Invariants of runs\<close>

lemma foldl_invariant:
  "P s \<Longrightarrow> (\<And>s x. P s \<Longrightarrow> P (f s x)) \<Longrightarrow> P (foldl f s xs)"
  by (induction xs arbitrary: s) auto

section \<open>The stream of progress events\<close>

lemma progressLog_sendEvent:
  "progressLog (sendEvent ev s)
     = progressLog s @ (case ev of Progress p \<Rightarrow> [p] | _ \<Rightarrow> [])"
  by (cases ev) (simp_all add: progressLog_def progressValues_def sendEventCalls_def sendEvent_def)

lemma progressLog_frame: "res_log s' = res_log s \<Longrightarrow> progressLog s' = progressLog s"
  by (simp add: progressLog_def sendEventCalls_def)

lemma lastSentProgress_sendEvent: "lastSentProgress (sendEvent ev s) = lastSentProgress s"
  by (simp add: sendEvent_def)

lemma progress_ok_same:
  assumes "progress_ok s" and "progressLog s' = progressLog s"
    and "lastSentProgress s' = lastSentProgress s"
  shows "progress_ok s'"
  using assms by (simp add: progress_ok_def)

lemma strict_sorted_le_last:
  "sorted_wrt (<) (xs :: int list) \<Longrightarrow> x \<in> set xs \<Longrightarrow> x \<le> last xs"
  by (induction xs) (auto simp: less_imp_le)

lemma progress_ok_parseProgress:
  assumes "progress_ok s"
  shows "progress_ok (parseProgress out s)"
proof (cases "parseLine out")
  case None
  with assms show ?thesis by (simp add: parseProgress_def)
next
  case (Some r)
  obtain p mb where r: "r = (p, mb)" by (cases r)
  define s1 where "s1 = (trackSizes mb s)\<lparr>currentFileProgress := p\<rparr>"
  have "res_log s1 = res_log s" by (simp add: s1_def trackSizes_def)
  then have same: "progressLog s1 = progressLog s" by (rule progressLog_frame)
  have lsp1: "lastSentProgress s1 = lastSentProgress s" by (simp add: s1_def trackSizes_def)
  have ok1: "progress_ok s1" using assms same lsp1 by (rule progress_ok_same)
  show ?thesis
  proof (cases "\<lfloor>combinedProgress s1\<rfloor> > \<lfloor>lastSentProgress s1\<rfloor>")
    case False
    then have "parseProgress out s = s1"
      using Some r by (simp add: parseProgress_def s1_def Let_def)
    with ok1 show ?thesis by simp
  next
    case True
    define s2 where "s2 = sendEvent (Progress \<lfloor>combinedProgress s1\<rfloor>)
                             (s1\<lparr>lastSentProgress := combinedProgress s1\<rparr>)"
    have pp: "parseProgress out s = s2"
      using True Some r by (simp add: parseProgress_def s1_def s2_def Let_def)
    have "progressLog (s1\<lparr>lastSentProgress := combinedProgress s1\<rparr>) = progressLog s1"
      by (rule progressLog_frame) simp
    then have log: "progressLog s2 = progressLog s1 @ [\<lfloor>combinedProgress s1\<rfloor>]"
      by (simp add: s2_def progressLog_sendEvent)
    have lsp: "lastSentProgress s2 = combinedProgress s1"
      by (simp add: s2_def sendEvent_def)
    have below: "x < \<lfloor>combinedProgress s1\<rfloor>" if "x \<in> set (progressLog s1)" for x
    proof -
      from ok1 have srt: "sorted_wrt (<) (progressLog s1)"
        and lst: "last (progressLog s1) = \<lfloor>lastSentProgress s1\<rfloor>"
        by (simp_all add: progress_ok_def)
      from srt that have "x \<le> last (progressLog s1)" by (rule strict_sorted_le_last)
      with lst True show ?thesis by linarith
    qed
    have "sorted_wrt (<) (progressLog s2)"
      using ok1 below by (simp add: progress_ok_def log sorted_wrt_append)
    then have "progress_ok s2"
      by (simp add: progress_ok_def log lsp)
    with pp show ?thesis by simp
  qed
qed

lemma progress_ok_detectMerging: "progress_ok s \<Longrightarrow> progress_ok (detectMerging out s)"
proof (rule progress_ok_same)
  show "progressLog (detectMerging out s) = progressLog s"
    by (simp add: detectMerging_def progressLog_def progressValues_def sendEventCalls_def sendEvent_def)
  show "lastSentProgress (detectMerging out s) = lastSentProgress s"
    by (simp add: detectMerging_def sendEvent_def)
qed

lemma progress_ok_detectError: "progress_ok s \<Longrightarrow> progress_ok (detectError out s)"
proof (rule progress_ok_same)
  show "progressLog (detectError out s) = progressLog s"
    by (simp add: detectError_def progressLog_def progressValues_def sendEventCalls_def sendEvent_def)
  show "lastSentProgress (detectError out s) = lastSentProgress s"
    by (simp add: detectError_def sendEvent_def)
qed

lemma progress_ok_waitLoop: "progress_ok s \<Longrightarrow> progress_ok (waitLoop n s)"
proof (rule progress_ok_same)
  show "progressLog (waitLoop n s) = progressLog s"
    by (simp add: waitLoop_def afterWait_def progressLog_def progressValues_def
        sendEventCalls_def sendEvent_def res_end_def)
  show "lastSentProgress (waitLoop n s) = lastSentProgress s"
    by (simp add: waitLoop_def afterWait_def sendEvent_def res_end_def)
qed

lemma progress_ok_onClose: "progress_ok s \<Longrightarrow> progress_ok (onClose code s)"
proof (rule progress_ok_same)
  have w: "progressLog (waitLoop 0 (s\<lparr>procClosed := True\<rparr>)) = progressLog s"
    by (simp add: waitLoop_def afterWait_def progressLog_def progressValues_def
        sendEventCalls_def sendEvent_def res_end_def)
  show "progressLog (onClose code s) = progressLog s"
    using w
    by (simp add: onClose_def Let_def unlinkIfExists_def progressLog_def progressValues_def
        sendEventCalls_def sendEvent_def res_end_def)
  show "lastSentProgress (onClose code s) = lastSentProgress s"
    by (simp add: onClose_def Let_def waitLoop_def afterWait_def unlinkIfExists_def
        sendEvent_def res_end_def)
qed

lemma progress_ok_step: "progress_ok s \<Longrightarrow> progress_ok (step s x)"
proof (cases x)
  case (Stdout out)
  assume "progress_ok s"
  with Stdout show ?thesis
    by (simp add: onStdout_def progress_ok_parseProgress progress_ok_detectMerging)
next
  case (Stderr out)
  assume "progress_ok s"
  with Stderr show ?thesis
    by (simp add: onStderr_def progress_ok_parseProgress progress_ok_detectMerging
        progress_ok_detectError)
next
  case IntervalTimer
  assume "progress_ok s"
  with IntervalTimer show ?thesis
    by (simp add: onInterval_def progress_ok_def progressLog_sendEvent lastSentProgress_sendEvent)
next
  case (ProcClose code)
  assume "progress_ok s"
  with ProcClose show ?thesis by (simp add: progress_ok_onClose)
next
  case WaitTimer
  assume "progress_ok s"
  with WaitTimer show ?thesis
    by (simp add: onWaitTimer_def progress_ok_waitLoop split: option.splits)
next
  case (ProcError msg)
  assume "progress_ok s"
  with ProcError show ?thesis
    by (simp add: onProcError_def unlinkIfExists_def progress_ok_def progressLog_def
        progressValues_def sendEventCalls_def sendEvent_def res_end_def)
next
  case ReqClose
  assume "progress_ok s"
  with ReqClose show ?thesis
    by (simp add: onReqClose_def Let_def progress_ok_def progressLog_def sendEventCalls_def)
next
  case FileWritten
  assume "progress_ok s"
  with FileWritten show ?thesis
    by (simp add: progress_ok_def progressLog_def sendEventCalls_def)
qed

lemma progress_ok_run: "progress_ok (run os)"
  unfolding run_def
proof (rule foldl_invariant)
  show "progress_ok initial"
    by (simp add: progress_ok_def progressLog_def progressValues_def sendEventCalls_def initial_def)
qed (rule progress_ok_step)

text \<open>
  Claim C2. Whatever the handler receives, the percentages of the \<open>progress\<close> events it
  passes to \<open>sendEvent\<close> (the initial 0 included) are strictly increasing, so no value is
  sent twice and none is lower than an earlier one; the last value sent is the floor of
  \<open>lastSentProgress\<close>, the value every new percentage has to exceed.
\<close>

theorem progress_events_strictly_increasing:
  "sorted_wrt (<) (progressValues (sendEventCalls (run os)))
   \<and> distinct (progressValues (sendEventCalls (run os)))
   \<and> last (progressValues (sendEventCalls (run os))) = \<lfloor>lastSentProgress (run os)\<rfloor>"
proof -
  have ok: "progress_ok (run os)" by (rule progress_ok_run)
  then have s: "sorted_wrt (<) (progressLog (run os))" by (simp add: progress_ok_def)
  then have "distinct (progressLog (run os))"
    by (simp add: strict_sorted_iff)
  with ok show ?thesis by (simp add: progress_ok_def progressLog_def)
qed

section \<open>Terminal events and the end of the response\<close>

lemma ended_sendEvent: "ended (sendEvent ev s) = ended s"
  by (simp add: ended_def sendEvent_def)

lemma ended_res_end: "ended (res_end s)"
  by (simp add: ended_def res_end_def)

lemma takeWhile_not_End_all:
  "End \<notin> set l \<Longrightarrow> takeWhile (\<lambda>c. c \<noteq> End) l = l"
  by (induction l) auto

lemma takeWhile_not_End_append:
  "End \<in> set l \<Longrightarrow> takeWhile (\<lambda>c. c \<noteq> End) (l @ m) = takeWhile (\<lambda>c. c \<noteq> End) l"
  by (induction l) auto

lemma emitted_sendEvent:
  "emitted (sendEvent ev s) = (if ended s then emitted s else emitted s @ [ev])"
proof (cases "End \<in> set (res_log s)")
  case True
  then show ?thesis
    by (simp add: emitted_def sendEvent_def ended_def takeWhile_not_End_append)
next
  case False
  then have "End \<notin> set (res_log s @ [Write ev])" by simp
  then have "takeWhile (\<lambda>c. c \<noteq> End) (res_log s @ [Write ev]) = res_log s @ [Write ev]"
    by (rule takeWhile_not_End_all)
  with False show ?thesis
    by (simp add: emitted_def sendEvent_def ended_def takeWhile_not_End_all)
qed

lemma emitted_res_end: "emitted (res_end s) = emitted s"
proof (cases "End \<in> set (res_log s)")
  case True
  then show ?thesis by (simp add: emitted_def res_end_def takeWhile_not_End_append)
next
  case False
  then show ?thesis by (simp add: emitted_def res_end_def takeWhile_append takeWhile_not_End_all)
qed

lemma emit_ok_frame:
  "emit_ok s \<Longrightarrow> res_log s' = res_log s \<Longrightarrow> emit_ok s'"
  by (simp add: emit_ok_def ended_def emitted_def)

lemma emit_ok_sendEvent:
  assumes "emit_ok s" and "ev \<noteq> Complete"
  shows "emit_ok (sendEvent ev s)"
  using assms by (auto simp: emit_ok_def ended_sendEvent emitted_sendEvent)

lemma emit_ok_terminal:
  assumes "emit_ok s" and "terminal ev"
  shows "emit_ok (res_end (sendEvent ev s))"
proof (cases "ended s")
  case True
  with assms(1) show ?thesis
    by (simp add: emit_ok_def ended_res_end emitted_res_end emitted_sendEvent)
next
  case False
  with assms(1) have "Complete \<notin> set (emitted s)" by (simp add: emit_ok_def)
  with False assms(2) show ?thesis
    by (simp add: emit_ok_def ended_res_end emitted_res_end emitted_sendEvent)
qed

lemma emit_ok_parseProgress: "emit_ok s \<Longrightarrow> emit_ok (parseProgress out s)"
proof (cases "parseLine out")
  case None
  assume "emit_ok s"
  with None show ?thesis by (simp add: parseProgress_def)
next
  case (Some r)
  assume ok: "emit_ok s"
  obtain p mb where r: "r = (p, mb)" by (cases r)
  define s1 where "s1 = (trackSizes mb s)\<lparr>currentFileProgress := p\<rparr>"
  have "res_log s1 = res_log s" by (simp add: s1_def trackSizes_def)
  with ok have ok1: "emit_ok s1" by (rule emit_ok_frame)
  then have "emit_ok (s1\<lparr>lastSentProgress := combinedProgress s1\<rparr>)"
    by (rule emit_ok_frame) simp
  then have "emit_ok (sendEvent (Progress \<lfloor>combinedProgress s1\<rfloor>)
                        (s1\<lparr>lastSentProgress := combinedProgress s1\<rparr>))"
    by (rule emit_ok_sendEvent) simp
  with ok1 show ?thesis
    using Some r by (simp add: parseProgress_def Let_def s1_def)
qed

lemma emit_ok_detectMerging: "emit_ok s \<Longrightarrow> emit_ok (detectMerging out s)"
proof -
  assume ok: "emit_ok s"
  then have "emit_ok (s\<lparr>isMerging := True\<rparr>)" by (rule emit_ok_frame) simp
  then have "emit_ok (sendEvent (Merging MergingStarted) (s\<lparr>isMerging := True\<rparr>))"
    by (rule emit_ok_sendEvent) simp
  then have "emit_ok ((sendEvent (Merging MergingStarted) (s\<lparr>isMerging := True\<rparr>))
                        \<lparr>mergeUpdateInterval := True\<rparr>)"
    by (rule emit_ok_frame) simp
  with ok show ?thesis by (simp add: detectMerging_def)
qed

lemma emit_ok_detectError: "emit_ok s \<Longrightarrow> emit_ok (detectError out s)"
  by (simp add: detectError_def emit_ok_sendEvent)

lemma emit_ok_afterWait: "emit_ok s \<Longrightarrow> emit_ok (afterWait s)"
proof -
  assume ok: "emit_ok s"
  then have "emit_ok (s\<lparr>downloadSuccess := True\<rparr>)" by (rule emit_ok_frame) simp
  then have "emit_ok (res_end (sendEvent Complete (s\<lparr>downloadSuccess := True\<rparr>)))"
    by (rule emit_ok_terminal) (simp add: terminal_def)
  moreover have "emit_ok (res_end (sendEvent (Error FileNotFound) s))"
    using ok by (rule emit_ok_terminal) (simp add: terminal_def)
  ultimately show ?thesis by (simp add: afterWait_def)
qed

lemma emit_ok_waitLoop: "emit_ok s \<Longrightarrow> emit_ok (waitLoop n s)"
proof -
  assume ok: "emit_ok s"
  then have a: "emit_ok (s\<lparr>attempts := Some n\<rparr>)" by (rule emit_ok_frame) simp
  from ok have "emit_ok (s\<lparr>attempts := None\<rparr>)" by (rule emit_ok_frame) simp
  then have "emit_ok (afterWait (s\<lparr>attempts := None\<rparr>))" by (rule emit_ok_afterWait)
  with a show ?thesis by (simp add: waitLoop_def)
qed

lemma emit_ok_error_end:
  assumes "emit_ok s"
  shows "emit_ok (res_end (unlinkIfExists (sendEvent (Error f) s)))"
proof -
  have "res_log (res_end (unlinkIfExists (sendEvent (Error f) s)))
          = res_log (res_end (sendEvent (Error f) s))"
    by (simp add: res_end_def unlinkIfExists_def)
  moreover have "emit_ok (res_end (sendEvent (Error f) s))"
    using assms by (rule emit_ok_terminal) (simp add: terminal_def)
  ultimately show ?thesis using emit_ok_frame by blast
qed

lemma emit_ok_onClose: "emit_ok s \<Longrightarrow> emit_ok (onClose code s)"
proof -
  assume ok: "emit_ok s"
  then have ok1: "emit_ok (s\<lparr>procClosed := True\<rparr>)" by (rule emit_ok_frame) simp
  define s2 where "s2 = (if code = Some 0 then waitLoop 0 (s\<lparr>procClosed := True\<rparr>)
      else res_end (unlinkIfExists
             (sendEvent (Error (if code = Some 1 then MergeFailed else ExitCode code))
                (s\<lparr>procClosed := True\<rparr>))))"
  have "emit_ok s2"
    unfolding s2_def using ok1 by (simp add: emit_ok_waitLoop emit_ok_error_end)
  then have "emit_ok (s2\<lparr>mergeUpdateInterval := False\<rparr>)" by (rule emit_ok_frame) simp
  with ok show ?thesis by (simp add: onClose_def Let_def s2_def)
qed

lemma emit_ok_step: "emit_ok s \<Longrightarrow> emit_ok (step s x)"
proof (cases x)
  case (Stdout out)
  assume "emit_ok s"
  with Stdout show ?thesis
    by (simp add: onStdout_def emit_ok_parseProgress emit_ok_detectMerging)
next
  case (Stderr out)
  assume "emit_ok s"
  with Stderr show ?thesis
    by (simp add: onStderr_def emit_ok_parseProgress emit_ok_detectMerging emit_ok_detectError)
next
  case IntervalTimer
  assume "emit_ok s"
  with IntervalTimer show ?thesis by (simp add: onInterval_def emit_ok_sendEvent)
next
  case (ProcClose code)
  assume "emit_ok s"
  with ProcClose show ?thesis by (simp add: emit_ok_onClose)
next
  case WaitTimer
  assume "emit_ok s"
  with WaitTimer show ?thesis
    by (simp add: onWaitTimer_def emit_ok_waitLoop split: option.splits)
next
  case (ProcError msg)
  assume "emit_ok s"
  with ProcError show ?thesis by (simp add: onProcError_def emit_ok_error_end)
next
  case ReqClose
  assume ok: "emit_ok s"
  have "res_log (onReqClose s) = res_log s" by (simp add: onReqClose_def Let_def)
  with ok ReqClose show ?thesis using emit_ok_frame by simp
next
  case FileWritten
  assume ok: "emit_ok s"
  then have "emit_ok (s\<lparr>tempFileExists := True\<rparr>)" by (rule emit_ok_frame) simp
  with FileWritten show ?thesis by simp
qed

lemma emit_ok_run: "emit_ok (run os)"
  unfolding run_def
proof (rule foldl_invariant)
  show "emit_ok initial"
    by (simp add: emit_ok_def ended_def emitted_def initial_def)
qed (rule emit_ok_step)

lemma res_log_grows_parseProgress: "\<exists>l. res_log (parseProgress out s) = res_log s @ l"
  by (simp add: parseProgress_def Let_def trackSizes_def sendEvent_def split: option.splits)

lemma res_log_grows_detectMerging: "\<exists>l. res_log (detectMerging out s) = res_log s @ l"
  by (simp add: detectMerging_def sendEvent_def)

lemma res_log_grows_detectError: "\<exists>l. res_log (detectError out s) = res_log s @ l"
  by (simp add: detectError_def sendEvent_def)

lemma res_log_grows_waitLoop: "\<exists>l. res_log (waitLoop n s) = res_log s @ l"
  by (simp add: waitLoop_def afterWait_def sendEvent_def res_end_def)

lemma res_log_grows_onClose: "\<exists>l. res_log (onClose code s) = res_log s @ l"
  using res_log_grows_waitLoop [of 0 "s\<lparr>procClosed := True\<rparr>"]
  by (simp add: onClose_def Let_def unlinkIfExists_def sendEvent_def res_end_def)

lemma res_log_grows_step: "\<exists>l. res_log (step s x) = res_log s @ l"
proof (cases x)
  case (Stdout out)
  obtain l1 where l1: "res_log (detectMerging out s) = res_log s @ l1"
    using res_log_grows_detectMerging by blast
  obtain l2 where "res_log (parseProgress out (detectMerging out s))
      = res_log (detectMerging out s) @ l2"
    using res_log_grows_parseProgress by blast
  with l1 Stdout show ?thesis by (simp add: onStdout_def)
next
  case (Stderr out)
  obtain l0 where l0: "res_log (detectError out s) = res_log s @ l0"
    using res_log_grows_detectError by blast
  obtain l1 where l1: "res_log (detectMerging out (detectError out s))
      = res_log (detectError out s) @ l1"
    using res_log_grows_detectMerging by blast
  obtain l2 where "res_log (parseProgress out (detectMerging out (detectError out s)))
      = res_log (detectMerging out (detectError out s)) @ l2"
    using res_log_grows_parseProgress by blast
  with l0 l1 Stderr show ?thesis by (simp add: onStderr_def)
next
  case IntervalTimer
  then show ?thesis by (simp add: onInterval_def sendEvent_def)
next
  case (ProcClose code)
  then show ?thesis by (simp add: res_log_grows_onClose)
next
  case WaitTimer
  then show ?thesis by (simp add: onWaitTimer_def res_log_grows_waitLoop split: option.splits)
next
  case (ProcError msg)
  then show ?thesis by (simp add: onProcError_def unlinkIfExists_def sendEvent_def res_end_def)
next
  case ReqClose
  then show ?thesis by (simp add: onReqClose_def Let_def)
next
  case FileWritten
  then show ?thesis by simp
qed

lemma res_log_grows_foldl: "\<exists>l. res_log (foldl step s xs) = res_log s @ l"
proof (induction xs arbitrary: s)
  case Nil
  show ?case by simp
next
  case (Cons x xs)
  obtain l1 where l1: "res_log (step s x) = res_log s @ l1"
    using res_log_grows_step by blast
  obtain l2 where "res_log (foldl step (step s x) xs) = res_log (step s x) @ l2"
    using Cons.IH by blast
  with l1 show ?case by simp
qed

lemma emitted_after_end:
  assumes "ended s"
  shows "emitted (foldl step s xs) = emitted s"
proof -
  obtain l where "res_log (foldl step s xs) = res_log s @ l"
    using res_log_grows_foldl by blast
  with assms show ?thesis
    by (simp add: emitted_def ended_def takeWhile_not_End_append)
qed

text \<open>
  Claim C3 (as amended). A \<open>complete\<close> event reaches the client at most once and is then the
  last event: the response is ended right after it. Once the response has been ended, the
  last event that reached the client is a \<open>complete\<close> or an \<open>error\<close> event, and nothing the
  handler receives afterwards adds an event. An \<open>error\<close> event sent for an error marker in
  the subprocess's standard error does not end the response.
\<close>

theorem complete_is_last_event:
  "(Complete \<in> set (emitted (run os)) \<longrightarrow>
      last (emitted (run os)) = Complete \<and> Complete \<notin> set (butlast (emitted (run os)))
      \<and> ended (run os))
   \<and> (ended (run os) \<longrightarrow>
      terminal (last (emitted (run os)))
      \<and> emitted (foldl step (run os) os') = emitted (run os))"
proof -
  have ok: "emit_ok (run os)" by (rule emit_ok_run)
  have a: "last (emitted (run os)) = Complete \<and> Complete \<notin> set (butlast (emitted (run os)))
      \<and> ended (run os)" if "Complete \<in> set (emitted (run os))"
    using ok that unfolding emit_ok_def by blast
  have b: "terminal (last (emitted (run os)))" if "ended (run os)"
    using ok that unfolding emit_ok_def by blast
  show ?thesis using a b emitted_after_end by blast
qed

lemma run_successful:
  "res_log (run successful_run) = [Write Start, Write (Progress 0), Write Complete, End]"
  by (simp add: successful_run_def run_def initial_def onClose_def waitLoop_def afterWait_def
      maxAttempts_def sendEvent_def res_end_def)

text \<open>
  A run in which the staging file is written and the subprocess exits with code 0: the
  events are \<open>start\<close>, \<open>progress 0\<close>, \<open>complete\<close>, and a later timer or disconnect adds none.
\<close>

theorem complete_is_last_event_witness:
  "Complete \<in> set (emitted (run successful_run))
   \<and> ended (run successful_run)
   \<and> emitted (run successful_run) = [Start, Progress 0, Complete]
   \<and> last (emitted (run successful_run)) = Complete
   \<and> Complete \<notin> set (butlast (emitted (run successful_run)))
   \<and> terminal (last (emitted (run successful_run)))
   \<and> emitted (foldl step (run successful_run) [IntervalTimer, ReqClose]) = emitted (run successful_run)"
proof -
  have e: "emitted (run successful_run) = [Start, Progress 0, Complete]"
    by (simp add: emitted_def run_successful)
  have c: "Complete \<in> set (emitted (run successful_run))" by (simp add: e)
  have d: "ended (run successful_run)" by (simp add: ended_def run_successful)
  from complete_is_last_event [of successful_run "[IntervalTimer, ReqClose]"] c d e
  show ?thesis by simp
qed

lemma error_line:
  "includes_str ''ERROR: unable to download video data'' ''ERROR:''"
  "\<not> includes_str ''ERROR: unable to download video data'' ''[Merger]''"
  "\<not> includes_str ''ERROR: unable to download video data'' ''Merging formats''"
  "parseLine ''ERROR: unable to download video data'' = None"
  by (simp_all add: includes_str.simps parse_eval)

text \<open>
  Claim C3 as stated fails: an \<open>ERROR:\<close> line on standard error followed by exit code 1
  sends two \<open>error\<close> events, the second after the first.
\<close>

theorem error_event_not_last:
  "res_log (run error_then_exit) =
     [Write Start, Write (Progress 0), Write (Error ProcessingFailed), Write (Error MergeFailed), End]
   \<and> emitted (run error_then_exit) =
     [Start, Progress 0, Error ProcessingFailed, Error MergeFailed]"
proof -
  have "res_log (run error_then_exit) =
     [Write Start, Write (Progress 0), Write (Error ProcessingFailed), Write (Error MergeFailed), End]"
    by (simp add: error_then_exit_def run_def initial_def onStderr_def detectError_def
        detectMerging_def parseProgress_def error_line onClose_def unlinkIfExists_def
        sendEvent_def res_end_def)
  then show ?thesis by (simp add: emitted_def)
qed

section \<open>The client disconnects\<close>

lemma sendEventCalls_sendEvent: "sendEventCalls (sendEvent ev s) = sendEventCalls s @ [ev]"
  by (simp add: sendEventCalls_def sendEvent_def)

lemma sendEventCalls_res_end: "sendEventCalls (res_end s) = sendEventCalls s"
  by (simp add: sendEventCalls_def res_end_def)

lemma success_ok_frame:
  "success_ok s \<Longrightarrow> res_log s' = res_log s \<Longrightarrow> downloadSuccess s' = downloadSuccess s
     \<Longrightarrow> success_ok s'"
  by (simp add: success_ok_def sendEventCalls_def)

lemma success_ok_sendEvent:
  "success_ok s \<Longrightarrow> ev \<noteq> Complete \<Longrightarrow> success_ok (sendEvent ev s)"
  by (auto simp: success_ok_def sendEventCalls_sendEvent) (simp_all add: sendEvent_def)

lemma success_ok_res_end: "success_ok s \<Longrightarrow> success_ok (res_end s)"
  by (simp add: success_ok_def sendEventCalls_res_end) (simp add: res_end_def)

lemma success_ok_unlinkIfExists: "success_ok s \<Longrightarrow> success_ok (unlinkIfExists s)"
  by (simp add: success_ok_def sendEventCalls_def unlinkIfExists_def)

lemma success_ok_parseProgress: "success_ok s \<Longrightarrow> success_ok (parseProgress out s)"
proof (cases "parseLine out")
  case None
  assume "success_ok s"
  with None show ?thesis by (simp add: parseProgress_def)
next
  case (Some r)
  assume ok: "success_ok s"
  obtain p mb where r: "r = (p, mb)" by (cases r)
  define s1 where "s1 = (trackSizes mb s)\<lparr>currentFileProgress := p\<rparr>"
  have ok1: "success_ok s1"
    using ok by (rule success_ok_frame) (simp_all add: s1_def trackSizes_def)
  then have "success_ok (s1\<lparr>lastSentProgress := combinedProgress s1\<rparr>)"
    by (rule success_ok_frame) simp_all
  then have "success_ok (sendEvent (Progress \<lfloor>combinedProgress s1\<rfloor>)
                        (s1\<lparr>lastSentProgress := combinedProgress s1\<rparr>))"
    by (rule success_ok_sendEvent) simp
  with ok1 show ?thesis
    using Some r by (simp add: parseProgress_def Let_def s1_def)
qed

lemma success_ok_detectMerging: "success_ok s \<Longrightarrow> success_ok (detectMerging out s)"
proof -
  assume ok: "success_ok s"
  then have "success_ok (s\<lparr>isMerging := True\<rparr>)" by (rule success_ok_frame) simp_all
  then have "success_ok (sendEvent (Merging MergingStarted) (s\<lparr>isMerging := True\<rparr>))"
    by (rule success_ok_sendEvent) simp
  then have "success_ok ((sendEvent (Merging MergingStarted) (s\<lparr>isMerging := True\<rparr>))
                        \<lparr>mergeUpdateInterval := True\<rparr>)"
    by (rule success_ok_frame) simp_all
  with ok show ?thesis by (simp add: detectMerging_def)
qed

lemma success_ok_detectError: "success_ok s \<Longrightarrow> success_ok (detectError out s)"
  by (simp add: detectError_def success_ok_sendEvent)

lemma success_ok_afterWait: "success_ok s \<Longrightarrow> success_ok (afterWait s)"
proof -
  assume ok: "success_ok s"
  have "success_ok (sendEvent Complete (s\<lparr>downloadSuccess := True\<rparr>))"
    by (simp add: success_ok_def sendEventCalls_sendEvent) (simp add: sendEvent_def)
  then have a: "success_ok (res_end (sendEvent Complete (s\<lparr>downloadSuccess := True\<rparr>)))"
    by (rule success_ok_res_end)
  have "success_ok (sendEvent (Error FileNotFound) s)"
    using ok by (rule success_ok_sendEvent) simp
  then have "success_ok (res_end (sendEvent (Error FileNotFound) s))"
    by (rule success_ok_res_end)
  with a show ?thesis by (simp add: afterWait_def)
qed

lemma success_ok_waitLoop: "success_ok s \<Longrightarrow> success_ok (waitLoop n s)"
proof -
  assume ok: "success_ok s"
  then have a: "success_ok (s\<lparr>attempts := Some n\<rparr>)" by (rule success_ok_frame) simp_all
  from ok have "success_ok (s\<lparr>attempts := None\<rparr>)" by (rule success_ok_frame) simp_all
  then have "success_ok (afterWait (s\<lparr>attempts := None\<rparr>))" by (rule success_ok_afterWait)
  with a show ?thesis by (simp add: waitLoop_def)
qed

lemma success_ok_error_end:
  "success_ok s \<Longrightarrow> success_ok (res_end (unlinkIfExists (sendEvent (Error f) s)))"
  by (simp add: success_ok_res_end success_ok_unlinkIfExists success_ok_sendEvent)

lemma success_ok_onClose: "success_ok s \<Longrightarrow> success_ok (onClose code s)"
proof -
  assume ok: "success_ok s"
  then have ok1: "success_ok (s\<lparr>procClosed := True\<rparr>)" by (rule success_ok_frame) simp_all
  define s2 where "s2 = (if code = Some 0 then waitLoop 0 (s\<lparr>procClosed := True\<rparr>)
      else res_end (unlinkIfExists
             (sendEvent (Error (if code = Some 1 then MergeFailed else ExitCode code))
                (s\<lparr>procClosed := True\<rparr>))))"
  have "success_ok s2"
    unfolding s2_def using ok1 by (simp add: success_ok_waitLoop success_ok_error_end)
  then have "success_ok (s2\<lparr>mergeUpdateInterval := False\<rparr>)"
    by (rule success_ok_frame) simp_all
  with ok show ?thesis by (simp add: onClose_def Let_def s2_def)
qed

lemma success_ok_step: "success_ok s \<Longrightarrow> success_ok (step s x)"
proof (cases x)
  case (Stdout out)
  assume "success_ok s"
  with Stdout show ?thesis
    by (simp add: onStdout_def success_ok_parseProgress success_ok_detectMerging)
next
  case (Stderr out)
  assume "success_ok s"
  with Stderr show ?thesis
    by (simp add: onStderr_def success_ok_parseProgress success_ok_detectMerging
        success_ok_detectError)
next
  case IntervalTimer
  assume "success_ok s"
  with IntervalTimer show ?thesis by (simp add: onInterval_def success_ok_sendEvent)
next
  case (ProcClose code)
  assume "success_ok s"
  with ProcClose show ?thesis by (simp add: success_ok_onClose)
next
  case WaitTimer
  assume "success_ok s"
  with WaitTimer show ?thesis
    by (simp add: onWaitTimer_def success_ok_waitLoop split: option.splits)
next
  case (ProcError msg)
  assume "success_ok s"
  with ProcError show ?thesis by (simp add: onProcError_def success_ok_error_end)
next
  case ReqClose
  assume ok: "success_ok s"
  have "success_ok (onReqClose s)"
    using ok by (rule success_ok_frame) (simp_all add: onReqClose_def Let_def)
  with ReqClose show ?thesis by simp
next
  case FileWritten
  assume ok: "success_ok s"
  then have "success_ok (s\<lparr>tempFileExists := True\<rparr>)" by (rule success_ok_frame) simp_all
  with FileWritten show ?thesis by simp
qed

lemma success_ok_run: "success_ok (run os)"
  unfolding run_def
proof (rule foldl_invariant)
  show "success_ok initial"
    by (simp add: success_ok_def sendEventCalls_def initial_def)
qed (rule success_ok_step)

text \<open>
  Claim C8. When the client connection closes, in whatever state the handler is:
  \<open>proc.kill()\<close> is called; \<open>downloadSuccess\<close> holds exactly when a \<open>complete\<close> event has been
  sent; the staging file is there afterwards exactly when it was there before and a
  \<open>complete\<close> event had been sent; it is unlinked exactly when it was there and no
  \<open>complete\<close> event had been sent; and the disconnect sends no event.
\<close>

theorem disconnect_kills_and_cleans_up:
  "killCalls (step (run os) ReqClose) = killCalls (run os) + 1
   \<and> (downloadSuccess (run os) \<longleftrightarrow> Complete \<in> set (sendEventCalls (run os)))
   \<and> (tempFileExists (step (run os) ReqClose)
        \<longleftrightarrow> Complete \<in> set (sendEventCalls (run os)) \<and> tempFileExists (run os))
   \<and> unlinkCalls (step (run os) ReqClose) =
        unlinkCalls (run os)
          + (if Complete \<notin> set (sendEventCalls (run os)) \<and> tempFileExists (run os) then 1 else 0)
   \<and> sendEventCalls (step (run os) ReqClose) = sendEventCalls (run os)"
proof -
  have "success_ok (run os)" by (rule success_ok_run)
  then have s: "downloadSuccess (run os) \<longleftrightarrow> Complete \<in> set (sendEventCalls (run os))"
    by (simp add: success_ok_def)
  have "killCalls (onReqClose (run os)) = killCalls (run os) + 1"
    by (simp add: onReqClose_def Let_def)
  moreover have "tempFileExists (onReqClose (run os))
      \<longleftrightarrow> downloadSuccess (run os) \<and> tempFileExists (run os)"
    by (auto simp: onReqClose_def Let_def)
  moreover have "unlinkCalls (onReqClose (run os)) = unlinkCalls (run os)
      + (if \<not> downloadSuccess (run os) \<and> tempFileExists (run os) then 1 else 0)"
    by (simp add: onReqClose_def Let_def)
  moreover have "sendEventCalls (onReqClose (run os)) = sendEventCalls (run os)"
    by (simp add: onReqClose_def Let_def sendEventCalls_def)
  ultimately show ?thesis using s by simp
qed

lemma merger_line:
  "\<not> includes_str ''[Merger] Merging formats into v.mp4'' ''ERROR:''"
  "\<not> includes_str ''[Merger] Merging formats into v.mp4'' ''Conversion failed''"
  "includes_str ''[Merger] Merging formats into v.mp4'' ''[Merger]''"
  "parseLine ''[Merger] Merging formats into v.mp4'' = None"
  by (simp_all add: includes_str.simps parse_eval)

lemma run_cancelled:
  "run cancelled_run =
     \<lparr>firstFileSize = 0, secondFileSize = 0, currentFileProgress = 0,
      firstFileComplete = False, lastSentProgress = 0, accumulatedMB = 0,
      isMerging = True, downloadSuccess = False,
      res_log = [Write Start, Write (Progress 0), Write (Merging MergingStarted)],
      mergeUpdateInterval = True, procClosed = False, attempts = None,
      killCalls = 0, tempFileExists = True, unlinkCalls = 0\<rparr>"
  by (simp add: cancelled_run_def run_def initial_def onStderr_def detectError_def
      detectMerging_def parseProgress_def merger_line sendEvent_def)

lemma run_successful_state:
  "run successful_run =
     \<lparr>firstFileSize = 0, secondFileSize = 0, currentFileProgress = 0,
      firstFileComplete = False, lastSentProgress = 0, accumulatedMB = 0,
      isMerging = False, downloadSuccess = True,
      res_log = [Write Start, Write (Progress 0), Write Complete, End],
      mergeUpdateInterval = False, procClosed = True, attempts = None,
      killCalls = 0, tempFileExists = True, unlinkCalls = 0\<rparr>"
  by (simp add: successful_run_def run_def initial_def onClose_def waitLoop_def afterWait_def
      maxAttempts_def sendEvent_def res_end_def)

text \<open>
  A disconnect during the merge phase kills the subprocess and removes the staging file,
  and no \<open>complete\<close> event is sent; a disconnect after a successful completion kills the
  subprocess and leaves the staging file in place.
\<close>

theorem disconnect_kills_and_cleans_up_witness:
  "tempFileExists (run cancelled_run)
   \<and> Complete \<notin> set (sendEventCalls (run cancelled_run))
   \<and> killCalls (step (run cancelled_run) ReqClose) = 1
   \<and> \<not> tempFileExists (step (run cancelled_run) ReqClose)
   \<and> unlinkCalls (step (run cancelled_run) ReqClose) = 1
   \<and> Complete \<notin> set (sendEventCalls (step (run cancelled_run) ReqClose))
   \<and> tempFileExists (run successful_run)
   \<and> Complete \<in> set (sendEventCalls (run successful_run))
   \<and> killCalls (step (run successful_run) ReqClose) = 1
   \<and> tempFileExists (step (run successful_run) ReqClose)
   \<and> unlinkCalls (step (run successful_run) ReqClose) = 0"
proof -
  have c: "tempFileExists (run cancelled_run)" "killCalls (run cancelled_run) = 0"
    "unlinkCalls (run cancelled_run) = 0"
    "sendEventCalls (run cancelled_run) = [Start, Progress 0, Merging MergingStarted]"
    by (simp_all add: run_cancelled sendEventCalls_def)
  have s: "tempFileExists (run successful_run)" "killCalls (run successful_run) = 0"
    "unlinkCalls (run successful_run) = 0"
    "sendEventCalls (run successful_run) = [Start, Progress 0, Complete]"
    by (simp_all add: run_successful_state sendEventCalls_def)
  from disconnect_kills_and_cleans_up [of cancelled_run]
    disconnect_kills_and_cleans_up [of successful_run]
  show ?thesis by (simp add: c s)
qed

section \<open>The credential file and the authenticated execution wrapper\<close>

lemmas path_eval = normalize_def path_join_def pushSegment_def

lemma normalize_nonempty: "normalize p \<noteq> []"
  by (simp add: normalize_def Let_def)

lemma path_join_nonempty: "path_join parts \<noteq> []"
  by (simp add: path_join_def Let_def normalize_nonempty)

lemma getCookiesFilePath_nonempty: "getCookiesFilePath e = Some p \<Longrightarrow> p \<noteq> []"
  by (auto simp: getCookiesFilePath_def Let_def path_join_nonempty split: if_splits)

lemma getCookiesArgs_forced:
  "getCookiesArgs e True =
     (case getCookiesFilePath e of None \<Rightarrow> [] | Some cookiesPath \<Rightarrow> [''--cookies'', cookiesPath])"
  by (auto simp: getCookiesArgs_def dest: getCookiesFilePath_nonempty split: option.splits)

text \<open>
  Claim C10. \<open>getCookiesArgs\<close> with \<open>forceUseCookies\<close> false returns the empty list whatever
  files exist; with \<open>forceUseCookies\<close> true it returns \<open>--cookies\<close> and the path of the
  credential file when one is found and the empty list when none is; so the result is
  non-empty exactly when the flag is set and a file is found. The file found is
  \<open>youtube-cookies.txt\<close> in the working directory if it exists, else \<open>cookies.txt\<close> there.
\<close>

theorem cookies_args_only_when_forced:
  "getCookiesArgs e False = []
   \<and> getCookiesArgs e True =
       (case getCookiesFilePath e of None \<Rightarrow> [] | Some cookiesPath \<Rightarrow> [''--cookies'', cookiesPath])
   \<and> (getCookiesArgs e forceUseCookies \<noteq> [] \<longleftrightarrow> forceUseCookies \<and> hasCookiesFile e)
   \<and> getCookiesFilePath e =
       (if existsSync e (path_join [cwd e, ''youtube-cookies.txt''])
        then Some (path_join [cwd e, ''youtube-cookies.txt''])
        else if existsSync e (path_join [cwd e, ''cookies.txt''])
        then Some (path_join [cwd e, ''cookies.txt''])
        else None)"
proof -
  have a: "getCookiesArgs e False = []" by (simp add: getCookiesArgs_def)
  have c: "getCookiesArgs e forceUseCookies \<noteq> [] \<longleftrightarrow> forceUseCookies \<and> hasCookiesFile e"
  proof (cases forceUseCookies)
    case True
    then show ?thesis
      by (simp add: getCookiesArgs_forced hasCookiesFile_def split: option.splits)
  next
    case False
    then show ?thesis by (simp add: getCookiesArgs_def)
  qed
  have d: "getCookiesFilePath e =
       (if existsSync e (path_join [cwd e, ''youtube-cookies.txt''])
        then Some (path_join [cwd e, ''youtube-cookies.txt''])
        else if existsSync e (path_join [cwd e, ''cookies.txt''])
        then Some (path_join [cwd e, ''cookies.txt''])
        else None)"
    by (simp add: getCookiesFilePath_def Let_def)
  show ?thesis using a c d getCookiesArgs_forced by blast
qed

lemma cookie_env_path: "getCookiesFilePath cookie_env = Some ''/app/cookies.txt''"
  by (simp add: getCookiesFilePath_def cookie_env_def path_eval)

text \<open>
  With \<open>/app/cookies.txt\<close> on disk the default call still returns the empty list, and the
  forced call returns the two credential arguments.
\<close>

theorem cookies_args_only_when_forced_witness:
  "existsSync cookie_env ''/app/cookies.txt''
   \<and> hasCookiesFile cookie_env
   \<and> getCookiesArgs cookie_env False = []
   \<and> getCookiesArgs cookie_env True = [''--cookies'', ''/app/cookies.txt'']"
proof -
  have "existsSync cookie_env ''/app/cookies.txt''" by (simp add: cookie_env_def)
  moreover have "hasCookiesFile cookie_env" by (simp add: hasCookiesFile_def cookie_env_path)
  ultimately show ?thesis
    using cookies_args_only_when_forced [of cookie_env True] by (simp add: cookie_env_path)
qed

lemma argsWithCookies_nonempty:
  "args \<noteq> [] \<Longrightarrow> argsWithCookies cookiesArgs args = map Some (butlast args @ cookiesArgs @ [last args])"
  by (simp add: argsWithCookies_def)

text \<open>
  Claim C5. When a credential file is present at the start, the first run has the
  credential arguments before the last argument. If it succeeds, it is the only run and
  the result has \<open>usedCookies = true\<close>. If it fails, exactly one more run is made, with the
  arguments as given; when that run fails too, the error thrown is the error of the first
  run; when it succeeds, the result has \<open>usedCookies = false\<close>.
\<close>

theorem credentialed_attempt_first:
  assumes "hasCookiesFile (env_after sys 0)"
  shows "\<exists>p. getCookiesFilePath (env_after sys 0) = Some p \<and>
     (\<forall>out. executeCommand sys 0 command (argsWithCookies [''--cookies'', p] args) = Inr out \<longrightarrow>
        executeWithCookieRetry sys command args
          = (Inr \<lparr>outputText = out, usedCookies = True\<rparr>, [argsWithCookies [''--cookies'', p] args]))
     \<and> (\<forall>e1. executeCommand sys 0 command (argsWithCookies [''--cookies'', p] args) = Inl e1 \<longrightarrow>
        snd (executeWithCookieRetry sys command args)
          = [argsWithCookies [''--cookies'', p] args, map Some args]
        \<and> (\<forall>e2. executeCommand sys 1 command (map Some args) = Inl e2 \<longrightarrow>
              fst (executeWithCookieRetry sys command args) = Inl e1)
        \<and> (\<forall>out. executeCommand sys 1 command (map Some args) = Inr out \<longrightarrow>
              fst (executeWithCookieRetry sys command args)
                = Inr \<lparr>outputText = out, usedCookies = False\<rparr>))"
proof -
  from assms obtain p where p: "getCookiesFilePath (env_after sys 0) = Some p"
    by (auto simp: hasCookiesFile_def)
  then have ca: "getCookiesArgs (env_after sys 0) True = [''--cookies'', p]"
    by (simp add: getCookiesArgs_forced)
  have "(\<forall>out. executeCommand sys 0 command (argsWithCookies [''--cookies'', p] args) = Inr out \<longrightarrow>
        executeWithCookieRetry sys command args
          = (Inr \<lparr>outputText = out, usedCookies = True\<rparr>, [argsWithCookies [''--cookies'', p] args]))"
    using assms by (simp add: executeWithCookieRetry_def ca)
  moreover have "(\<forall>e1. executeCommand sys 0 command (argsWithCookies [''--cookies'', p] args) = Inl e1 \<longrightarrow>
        snd (executeWithCookieRetry sys command args)
          = [argsWithCookies [''--cookies'', p] args, map Some args]
        \<and> (\<forall>e2. executeCommand sys 1 command (map Some args) = Inl e2 \<longrightarrow>
              fst (executeWithCookieRetry sys command args) = Inl e1)
        \<and> (\<forall>out. executeCommand sys 1 command (map Some args) = Inr out \<longrightarrow>
              fst (executeWithCookieRetry sys command args)
                = Inr \<lparr>outputText = out, usedCookies = False\<rparr>))"
    using assms by (auto simp: executeWithCookieRetry_def ca Let_def split: sum.splits)
  ultimately show ?thesis using p by blast
qed

lemma system_paths:
  "getCookiesFilePath (env_after failing_system 0) = Some ''/app/cookies.txt''"
  "getCookiesFilePath (env_after recovering_system 0) = Some ''/app/cookies.txt''"
  by (simp_all add: getCookiesFilePath_def env_after_def failing_system_def
      recovering_system_def path_eval)

text \<open>
  A command that fails with and without credentials surfaces the credentialed error; a
  command that fails only with credentials returns the output of the retry.
\<close>

theorem credentialed_attempt_first_witness:
  "hasCookiesFile (env_after failing_system 0)
   \<and> executeWithCookieRetry failing_system ''yt-dlp'' [''-F'', ''URL'']
       = (Inl ''Command failed: with cookies'',
          [[Some ''-F'', Some ''--cookies'', Some ''/app/cookies.txt'', Some ''URL''],
           [Some ''-F'', Some ''URL'']])
   \<and> hasCookiesFile (env_after recovering_system 0)
   \<and> executeWithCookieRetry recovering_system ''yt-dlp'' [''-F'', ''URL'']
       = (Inr \<lparr>outputText = ''formats'', usedCookies = False\<rparr>,
          [[Some ''-F'', Some ''--cookies'', Some ''/app/cookies.txt'', Some ''URL''],
           [Some ''-F'', Some ''URL'']])"
proof -
  have h: "hasCookiesFile (env_after failing_system 0)"
    "hasCookiesFile (env_after recovering_system 0)"
    by (simp_all add: hasCookiesFile_def system_paths)
  have x: "executeCommand failing_system n c a
        = (if n = 0 then Inl ''Command failed: with cookies''
           else Inl ''Command failed: without cookies'')"
    "executeCommand recovering_system n c a
        = (if n = 0 then Inl ''Command failed: with cookies'' else Inr ''formats'')" for n c a
    by (simp_all add: failing_system_def recovering_system_def)
  have w: "argsWithCookies [''--cookies'', ''/app/cookies.txt''] [''-F'', ''URL'']
      = [Some ''-F'', Some ''--cookies'', Some ''/app/cookies.txt'', Some ''URL'']"
    by (simp add: argsWithCookies_def)
  from credentialed_attempt_first [OF h(1), of "''yt-dlp''" "[''-F'', ''URL'']"]
  have "executeWithCookieRetry failing_system ''yt-dlp'' [''-F'', ''URL'']
       = (Inl ''Command failed: with cookies'',
          [[Some ''-F'', Some ''--cookies'', Some ''/app/cookies.txt'', Some ''URL''],
           [Some ''-F'', Some ''URL'']])"
    by (simp add: system_paths x w prod_eq_iff)
  moreover from credentialed_attempt_first [OF h(2), of "''yt-dlp''" "[''-F'', ''URL'']"]
  have "executeWithCookieRetry recovering_system ''yt-dlp'' [''-F'', ''URL'']
       = (Inr \<lparr>outputText = ''formats'', usedCookies = False\<rparr>,
          [[Some ''-F'', Some ''--cookies'', Some ''/app/cookies.txt'', Some ''URL''],
           [Some ''-F'', Some ''URL'']])"
    by (simp add: system_paths x w prod_eq_iff)
  ultimately show ?thesis using h by simp
qed

section \<open>The format decision and the file-serving path check\<close>

text \<open>
  Claim C6. When the format inspection fails (the subprocess or \<open>JSON.parse\<close> throws, or the
  parsed value is \<open>null\<close>), the handler still reaches a format decision: \<open>isAudio\<close> holds
  exactly when the format identifier contains \<open>251\<close> or \<open>140\<close>, \<open>hasAudio\<close> exactly when the
  caller's hint is the string \<open>true\<close> or \<open>isAudio\<close> holds, and the format requested is the
  identifier itself when \<open>hasAudio\<close> holds and the identifier followed by \<open>+bestaudio\<close>
  otherwise.
\<close>

theorem fallback_format_decision:
  "isAudio (decideFormat (Inl error) formatId isCombined)
     = (includes_str formatId ''251'' \<or> includes_str formatId ''140'')
   \<and> hasAudio (decideFormat (Inl error) formatId isCombined)
     = (isCombined = QStr ''true'' \<or> isAudio (decideFormat (Inl error) formatId isCombined))
   \<and> formatToDownload (decideFormat (Inl error) formatId isCombined)
     = (if hasAudio (decideFormat (Inl error) formatId isCombined) then formatId
        else formatId @ ''+bestaudio'')
   \<and> decideFormat (Inr JNull) formatId isCombined = decideFormat (Inl error) formatId isCombined"
  by (simp add: decideFormat_def fallbackDetection_def inspectedDetection_def Let_def)

text \<open>
  After a failed inspection, \<open>140\<close> is taken as audio, \<open>299\<close> is requested as
  \<open>299+bestaudio\<close>, and \<open>18\<close> with the hint \<open>true\<close> is requested as it is.
\<close>

theorem fallback_format_decision_witness:
  "decideFormat (Inl ''ERROR: unable to extract'') ''140'' QAbsent
     = \<lparr>hasAudio = True, isAudio = True, formatToDownload = ''140''\<rparr>
   \<and> decideFormat (Inl ''ERROR: unable to extract'') ''299'' QAbsent
     = \<lparr>hasAudio = False, isAudio = False, formatToDownload = ''299+bestaudio''\<rparr>
   \<and> decideFormat (Inl ''ERROR: unable to extract'') ''18'' (QStr ''true'')
     = \<lparr>hasAudio = True, isAudio = False, formatToDownload = ''18''\<rparr>"
proof -
  have i: "includes_str ''140'' ''140''" "\<not> includes_str ''140'' ''251''"
    "\<not> includes_str ''299'' ''140''" "\<not> includes_str ''299'' ''251''"
    "\<not> includes_str ''18'' ''140''" "\<not> includes_str ''18'' ''251''"
    by (simp_all add: includes_str.simps startsWith_def)
  from fallback_format_decision [of "''ERROR: unable to extract''" "''140''" QAbsent]
    fallback_format_decision [of "''ERROR: unable to extract''" "''299''" QAbsent]
    fallback_format_decision [of "''ERROR: unable to extract''" "''18''" "QStr ''true''"]
  show ?thesis
    by (simp add: i format_decision.equality)
qed

lemma downloads_dir_sibling: "DOWNLOADS_DIR sibling_env = ''/app/downloads''"
  by (simp add: DOWNLOADS_DIR_def sibling_env_def path_eval)

lemma normalize_sibling:
  "normalize ''/app/downloads-private/key.mp4'' = ''/app/downloads-private/key.mp4''"
  by (simp add: path_eval)

text \<open>
  Claim C9 fails on the code: the check is a string prefix test, so a path in a sibling
  directory whose name begins with \<open>downloads\<close> passes it. With the working directory
  \<open>/app\<close>, the regular file \<open>/app/downloads-private/key.mp4\<close> is not inside \<open>/app/downloads\<close>,
  and the handler streams it (and deletes it afterwards) instead of answering 403.
\<close>

theorem sibling_directory_served:
  "download_file sibling_env sibling_readable ''GET'' (QStr ''/app/downloads-private/key.mp4'')
     = Streamed ''/app/downloads-private/key.mp4''
   \<and> \<not> insideDirectory (DOWNLOADS_DIR sibling_env) (normalize ''/app/downloads-private/key.mp4'')"
proof -
  have "startsWith ''/app/downloads-private/key.mp4'' ''/app/downloads''"
    by (simp add: startsWith_def)
  moreover have "existsSync sibling_env ''/app/downloads''"
    "existsSync sibling_env ''/app/downloads-private/key.mp4''"
    by (simp_all add: sibling_env_def)
  moreover have "sibling_readable ''/app/downloads-private/key.mp4''"
    by (simp add: sibling_readable_def)
  ultimately have "download_file sibling_env sibling_readable ''GET''
       (QStr ''/app/downloads-private/key.mp4'')
     = Streamed ''/app/downloads-private/key.mp4''"
    by (simp add: download_file_def downloads_dir_sibling normalize_sibling)
  moreover have "\<not> insideDirectory ''/app/downloads'' ''/app/downloads-private/key.mp4''"
    by (simp add: insideDirectory_def startsWith_def)
  ultimately show ?thesis by (simp add: downloads_dir_sibling normalize_sibling)
qed

lemma served_path_has_prefix:
  "download_file e readable method filePath = Streamed fp
     \<Longrightarrow> filePath = QStr fp \<and> startsWith (normalize fp) (DOWNLOADS_DIR e) \<and> existsSync e fp
         \<and> readable fp"
  by (auto simp: download_file_def split: if_splits query.splits)

section \<open>Rounding to binary64\<close>
















section \<open>The progress parser in binary64\<close>











section \<open>Runs of the parser in binary64\<close>

lemmas round64_eval = ilog2_def pow2_def round_even_def bitlen.simps

lemma tolerance64_value: "tolerance64 = Fin (3602879701896397 / 36028797018963968)"
  unfolding tolerance64_def round64_def Let_def by (simp add: round64_eval)





lemma parse64_values:
  "parseFloat64 ''100'' = Fin 100" "parseFloat64 ''10.00'' = Fin 10" "parseFloat64 ''90.00'' = Fin 90"
  "parseFloat64 ''50.0'' = Fin 50" "parseFloat64 ''20.0'' = Fin 20" "parseFloat64 ''150.0'' = Fin 150"
  "parseFloat64 ''17.148'' = Fin (4826732900634329 / 281474976710656)"
  "parseFloat64 ''235.311'' = Fin (8279269780595147 / 35184372088832)"
  unfolding parseFloat64_def round64_def Let_def
  by (simp_all add: parseFloat_def isDigit_def natOfDigits_def digitVal_def round64_eval)









text \<open>
  The tolerance test in binary64: sizes of 0.30 and 0.40 MiB differ by
  0.10000000000000003, which exceeds the literal 0.1, so the second line marks the first
  stream complete.
\<close>

lemma tolerance_in_binary64:
  "parseFloat64 ''0.30'' = Fin (5404319552844595 / 18014398509481984)"
  "parseFloat64 ''0.40'' = Fin (3602879701896397 / 9007199254740992)"
  "fsub (parseFloat64 ''0.40'') (parseFloat64 ''0.30'') = Fin (1801439850948199 / 18014398509481984)"
  "firstFileComplete64
     (trackSizes64 (parseFloat64 ''0.40'') (initial64\<lparr>firstFileSize64 := parseFloat64 ''0.30''\<rparr>))"
proof -
  show a: "parseFloat64 ''0.30'' = Fin (5404319552844595 / 18014398509481984)"
    unfolding parseFloat64_def round64_def Let_def
    by (simp add: parseFloat_def isDigit_def natOfDigits_def digitVal_def round64_eval)
  show b: "parseFloat64 ''0.40'' = Fin (3602879701896397 / 9007199254740992)"
    unfolding parseFloat64_def round64_def Let_def
    by (simp add: parseFloat_def isDigit_def natOfDigits_def digitVal_def round64_eval)
  have d: "fsub (Fin (3602879701896397 / 9007199254740992))
             (Fin (5404319552844595 / 18014398509481984))
          = Fin (1801439850948199 / 18014398509481984)"
    unfolding fsub_def fneg.simps fadd.simps round64_def Let_def by (simp add: round64_eval)
  then show c: "fsub (parseFloat64 ''0.40'') (parseFloat64 ''0.30'')
      = Fin (1801439850948199 / 18014398509481984)"
    by (simp only: a b)
  show "firstFileComplete64
     (trackSizes64 (parseFloat64 ''0.40'') (initial64\<lparr>firstFileSize64 := parseFloat64 ''0.30''\<rparr>))"
    by (simp add: trackSizes64_def a b d initial64_def feq_def tolerance64_value)
qed

section \<open>The cleanup of a staging file runs once\<close>

lemma cleanup_ok_step: "cleanup_ok s \<Longrightarrow> cleanup_ok (cleanup_step s x)"
  by (cases x) (auto simp: cleanup_ok_def cleanup_def afterDelay_def Let_def split: if_splits)

lemma cleanup_ok_run: "cleanup_ok (cleanup_run exists0 os)"
  unfolding cleanup_run_def
proof (rule foldl_invariant)
  show "cleanup_ok (cleanup_initial exists0)"
    by (simp add: cleanup_ok_def cleanup_initial_def)
qed (rule cleanup_ok_step)

lemma cleanupDone_foldl:
  "cleanupDone (foldl cleanup_step s os) = (cleanupDone s \<or> fired os)"
proof (induction os arbitrary: s)
  case Nil
  show ?case by (simp add: fired_def)
next
  case (Cons x os)
  show ?case
    by (cases x) (auto simp: Cons.IH fired_def cleanup_def afterDelay_def Let_def)
qed

lemma deleted_when_done_foldl:
  "deleted_when_done s \<Longrightarrow> unlink_succeeds os \<Longrightarrow> deleted_when_done (foldl cleanup_step s os)"
proof (induction os arbitrary: s)
  case Nil
  then show ?case by simp
next
  case (Cons x os)
  from Cons.prems have rest: "unlink_succeeds os" by (simp add: unlink_succeeds_def)
  have "deleted_when_done (cleanup_step s x)"
  proof (cases x)
    case (Fires t)
    with Cons.prems(1) show ?thesis by (simp add: deleted_when_done_def cleanup_def)
  next
    case (DelayElapsed ok)
    with Cons.prems(2) have "ok" by (simp add: unlink_succeeds_def)
    with DelayElapsed Cons.prems(1) show ?thesis
      by (simp add: deleted_when_done_def afterDelay_def Let_def)
  qed
  then have "deleted_when_done (foldl cleanup_step (cleanup_step s x) os)"
    using rest by (rule Cons.IH)
  then show ?case by simp
qed

lemma serve_ok_cleanup: "serve_ok s \<Longrightarrow> serve_ok (df_cleanup s)"
  by (auto simp: serve_ok_def df_cleanup_def)

lemma serve_ok_step: "serve_ok s \<Longrightarrow> serve_ok (serve_step s x)"
proof (cases x)
  case CleanupTimer
  assume ok: "serve_ok s"
  then have "serve_ok (s\<lparr>df_timers := df_timers s - 1\<rparr>)" by (simp add: serve_ok_def)
  then have "serve_ok (df_cleanup (s\<lparr>df_timers := df_timers s - 1\<rparr>))"
    by (rule serve_ok_cleanup)
  with ok CleanupTimer show ?thesis by simp
next
  case (WaitElapsed ok)
  assume "serve_ok s"
  with WaitElapsed show ?thesis by (auto simp: serve_ok_def Let_def split: if_splits)
next
  case (RetryTimer ok)
  assume "serve_ok s"
  with RetryTimer show ?thesis by (auto simp: serve_ok_def Let_def split: if_splits)
qed (simp_all add: serve_ok_cleanup, simp_all add: serve_ok_def df_schedule_def)

lemma serve_ok_run: "serve_ok (serve_run os)"
  unfolding serve_run_def
proof (rule foldl_invariant)
  show "serve_ok serve_initial" by (simp add: serve_ok_def serve_initial_def)
qed (rule serve_ok_step)

lemma df_deleted_when_done_step:
  assumes "df_deleted_when_done s" and "df_retry_succeeds [x]"
  shows "df_deleted_when_done (serve_step s x)"
proof (cases x)
  case (WaitElapsed ok)
  with assms(1) show ?thesis by (simp add: df_deleted_when_done_def Let_def)
next
  case (RetryTimer ok)
  with assms(2) have "ok" by (simp add: df_retry_succeeds_def)
  with RetryTimer assms(1) show ?thesis by (simp add: df_deleted_when_done_def Let_def)
next
  case CleanupTimer
  with assms(1) show ?thesis by (simp add: df_deleted_when_done_def df_cleanup_def)
qed (use assms(1) in \<open>simp_all add: df_deleted_when_done_def df_cleanup_def df_schedule_def\<close>)

lemma serve_run_snoc: "serve_run (os @ [x]) = serve_step (serve_run os) x"
  by (simp add: serve_run_def)

lemma df_deleted_when_done_run:
  "df_retry_succeeds os \<Longrightarrow> df_deleted_when_done (serve_run os)"
proof (induction os rule: rev_induct)
  case Nil
  show ?case by (simp add: serve_run_def serve_initial_def df_deleted_when_done_def)
next
  case (snoc x os)
  from snoc.prems have "df_retry_succeeds os" and "df_retry_succeeds [x]"
    by (simp_all add: df_retry_succeeds_def)
  with snoc.IH show ?case by (simp add: serve_run_snoc df_deleted_when_done_step)
qed

lemma df_triggers_ok_run: "df_triggers_ok os (serve_run os)"
proof (induction os rule: rev_induct)
  case Nil
  show ?case by (simp add: serve_run_def serve_initial_def df_triggers_ok_def)
next
  case (snoc x os)
  define s where "s = serve_run os"
  from snoc.IH have ih: "df_triggers_ok os s" by (simp add: s_def)
  have "df_triggers_ok (os @ [x]) (serve_step s x)"
    using ih
    by (cases x) (auto simp: df_triggers_ok_def df_cleanup_def df_schedule_def Let_def)
  then show ?case by (simp add: serve_run_snoc s_def)
qed

text \<open>
  Claim C4. Whatever triggers fire and in whatever order, interleaved in any way with the
  timers and with the end of the wait inside the body, in the streaming handler and in the
  file-serving handler alike: the body of \<open>cleanup\<close> behind the \<open>cleanupDone\<close> guard is entered
  at most once; the flag is set, and the body entered, exactly when \<open>cleanup\<close> has been
  called (in the file-serving handler: as soon as the stream has failed, or the request
  has closed before the stream ended, or the response has finished or closed and no
  2000 ms timer is pending); a call of \<open>cleanup\<close> after the first changes nothing; the file is
  unlinked at most once (in the file-serving handler at most twice, the second being the
  retry of that one body after a failed unlink); and when the unlink succeeds (in the
  file-serving handler: at the retry at the latest), the file is gone once the body has
  finished.
\<close>

theorem cleanup_body_runs_once:
  "bodyRuns (cleanup_run exists0 os) \<le> 1
   \<and> unlinkAttempts (cleanup_run exists0 os) \<le> 1
   \<and> (cleanupDone (cleanup_run exists0 os) \<longleftrightarrow> fired os)
   \<and> (bodyRuns (cleanup_run exists0 os) = 1 \<longleftrightarrow> fired os)
   \<and> (cleanupDone (cleanup_run exists0 os) \<longrightarrow>
        cleanup (cleanup_run exists0 os) = cleanup_run exists0 os)
   \<and> (unlink_succeeds os \<and> fired os \<and> bodiesWaiting (cleanup_run exists0 os) = 0 \<longrightarrow>
        \<not> mergedFileExists (cleanup_run exists0 os))
   \<and> df_bodyRuns (serve_run os') \<le> 1
   \<and> df_unlinkAttempts (serve_run os') \<le> 2
   \<and> (df_cleanupDone (serve_run os') \<longrightarrow> df_cleanup (serve_run os') = serve_run os')
   \<and> (df_cleanupDone (serve_run os') \<longleftrightarrow> df_bodyRuns (serve_run os') = 1)
   \<and> (FileStreamError \<in> set os' \<longrightarrow> df_cleanupDone (serve_run os'))
   \<and> (RequestClose \<in> set os' \<and> FileStreamEnd \<notin> set os' \<longrightarrow> df_cleanupDone (serve_run os'))
   \<and> ((ResponseFinish \<in> set os' \<or> ResponseClose \<in> set os') \<and> df_timers (serve_run os') = 0
        \<longrightarrow> df_cleanupDone (serve_run os'))
   \<and> (df_retry_succeeds os' \<and> df_cleanupDone (serve_run os') \<and> df_waiting (serve_run os') = 0
        \<and> df_retries (serve_run os') = 0 \<longrightarrow> \<not> df_fileExists (serve_run os'))"
proof -
  define s where "s = cleanup_run exists0 os"
  define t where "t = serve_run os'"
  have ok: "cleanup_ok s" unfolding s_def by (rule cleanup_ok_run)
  have fin: "cleanupDone s \<longleftrightarrow> fired os"
    unfolding s_def cleanup_run_def by (simp add: cleanupDone_foldl cleanup_initial_def)
  have a: "bodyRuns s \<le> 1" "unlinkAttempts s \<le> 1" "bodyRuns s = 1 \<longleftrightarrow> fired os"
    using ok fin by (auto simp: cleanup_ok_def split: if_splits)
  have b: "cleanupDone s \<longrightarrow> cleanup s = s" by (simp add: cleanup_def)
  have "deleted_when_done (cleanup_initial exists0)"
    by (simp add: deleted_when_done_def cleanup_initial_def)
  then have "unlink_succeeds os \<Longrightarrow> deleted_when_done s"
    unfolding s_def cleanup_run_def by (rule deleted_when_done_foldl)
  then have c: "unlink_succeeds os \<and> fired os \<and> bodiesWaiting s = 0 \<longrightarrow> \<not> mergedFileExists s"
    using fin by (simp add: deleted_when_done_def)
  have sok: "serve_ok t" unfolding t_def by (rule serve_ok_run)
  then have d: "df_bodyRuns t \<le> 1" "df_unlinkAttempts t \<le> 2"
    "df_cleanupDone t \<longleftrightarrow> df_bodyRuns t = 1"
    by (auto simp: serve_ok_def split: if_splits)
  have e: "df_cleanupDone t \<longrightarrow> df_cleanup t = t" by (simp add: df_cleanup_def)
  have tr: "df_triggers_ok os' t" unfolding t_def by (rule df_triggers_ok_run)
  then have f: "FileStreamError \<in> set os' \<longrightarrow> df_cleanupDone t"
    "RequestClose \<in> set os' \<and> FileStreamEnd \<notin> set os' \<longrightarrow> df_cleanupDone t"
    "(ResponseFinish \<in> set os' \<or> ResponseClose \<in> set os') \<and> df_timers t = 0
       \<longrightarrow> df_cleanupDone t"
    by (auto simp: df_triggers_ok_def)
  have "df_retry_succeeds os' \<Longrightarrow> df_deleted_when_done t"
    unfolding t_def by (rule df_deleted_when_done_run)
  then have g: "df_retry_succeeds os' \<and> df_cleanupDone t \<and> df_waiting t = 0
      \<and> df_retries t = 0 \<longrightarrow> \<not> df_fileExists t"
    by (auto simp: df_deleted_when_done_def)
  show ?thesis
    unfolding s_def [symmetric] t_def [symmetric]
    using a fin b c d e f g by blast
qed

lemma run_all_triggers:
  "cleanup_run True all_triggers =
     \<lparr>cleanupDone = True, destroyCalls = 1, bodiesWaiting = 0, bodyRuns = 1,
      mergedFileExists = False, unlinkAttempts = 1\<rparr>"
  by (simp add: cleanup_run_def all_triggers_def cleanup_initial_def cleanup_def afterDelay_def)

lemma run_served_and_closed:
  "serve_run served_and_closed =
     \<lparr>df_cleanupDone = True, df_streamEnded = True, df_streamDestroyed = True,
      df_timers = 0, df_waiting = 0, df_retries = 0, df_bodyRuns = 1,
      df_fileExists = False, df_unlinkAttempts = 2\<rparr>"
  by (simp add: serve_run_def served_and_closed_def serve_initial_def df_cleanup_def
      df_schedule_def)

lemma run_cancelled_serving:
  "serve_run cancelled_serving =
     \<lparr>df_cleanupDone = True, df_streamEnded = False, df_streamDestroyed = True,
      df_timers = 0, df_waiting = 0, df_retries = 0, df_bodyRuns = 1,
      df_fileExists = False, df_unlinkAttempts = 1\<rparr>"
  by (simp add: serve_run_def cancelled_serving_def serve_initial_def df_cleanup_def
      df_schedule_def)

text \<open>
  All three triggers of the streaming handler fire, two of them before the body has
  finished: one body run, one unlink, the file is gone. In the file-serving handler, after
  a complete delivery the first unlink fails and the retry succeeds: one body run, two
  unlinks, the file is gone. After a cancelled delivery the request and the response
  close: one body run, one unlink, the file is gone.
\<close>

theorem cleanup_body_runs_once_witness:
  "fired all_triggers \<and> unlink_succeeds all_triggers
   \<and> cleanupDone (cleanup_run True all_triggers)
   \<and> bodiesWaiting (cleanup_run True all_triggers) = 0
   \<and> bodyRuns (cleanup_run True all_triggers) = 1
   \<and> unlinkAttempts (cleanup_run True all_triggers) = 1
   \<and> cleanup (cleanup_run True all_triggers) = cleanup_run True all_triggers
   \<and> \<not> mergedFileExists (cleanup_run True all_triggers)
   \<and> ResponseFinish \<in> set served_and_closed \<and> df_retry_succeeds served_and_closed
   \<and> df_timers (serve_run served_and_closed) = 0
   \<and> df_waiting (serve_run served_and_closed) = 0
   \<and> df_retries (serve_run served_and_closed) = 0
   \<and> df_cleanupDone (serve_run served_and_closed)
   \<and> df_bodyRuns (serve_run served_and_closed) = 1
   \<and> df_unlinkAttempts (serve_run served_and_closed) = 2
   \<and> df_cleanup (serve_run served_and_closed) = serve_run served_and_closed
   \<and> \<not> df_fileExists (serve_run served_and_closed)
   \<and> RequestClose \<in> set cancelled_serving \<and> FileStreamEnd \<notin> set cancelled_serving
   \<and> df_retry_succeeds cancelled_serving
   \<and> df_cleanupDone (serve_run cancelled_serving)
   \<and> df_bodyRuns (serve_run cancelled_serving) = 1
   \<and> df_unlinkAttempts (serve_run cancelled_serving) = 1
   \<and> \<not> df_fileExists (serve_run cancelled_serving)"
proof -
  have f: "fired all_triggers" "unlink_succeeds all_triggers"
    by (simp_all add: fired_def unlink_succeeds_def all_triggers_def)
  have c: "bodiesWaiting (cleanup_run True all_triggers) = 0"
    "unlinkAttempts (cleanup_run True all_triggers) = 1"
    by (simp_all add: run_all_triggers)
  have h: "ResponseFinish \<in> set served_and_closed" "df_retry_succeeds served_and_closed"
    by (simp_all add: served_and_closed_def df_retry_succeeds_def)
  have d: "df_timers (serve_run served_and_closed) = 0"
    "df_waiting (serve_run served_and_closed) = 0"
    "df_retries (serve_run served_and_closed) = 0"
    "df_unlinkAttempts (serve_run served_and_closed) = 2"
    "df_cleanupDone (serve_run served_and_closed)"
    by (simp_all add: run_served_and_closed)
  have k: "RequestClose \<in> set cancelled_serving" "FileStreamEnd \<notin> set cancelled_serving"
    "df_retry_succeeds cancelled_serving"
    by (simp_all add: cancelled_serving_def df_retry_succeeds_def)
  have m: "df_waiting (serve_run cancelled_serving) = 0"
    "df_retries (serve_run cancelled_serving) = 0"
    "df_unlinkAttempts (serve_run cancelled_serving) = 1"
    by (simp_all add: run_cancelled_serving)
  have c1: "cleanupDone (cleanup_run True all_triggers)
      \<and> bodyRuns (cleanup_run True all_triggers) = 1
      \<and> cleanup (cleanup_run True all_triggers) = cleanup_run True all_triggers
      \<and> \<not> mergedFileExists (cleanup_run True all_triggers)"
    using cleanup_body_runs_once [of True all_triggers served_and_closed] f c by blast
  have c2: "df_bodyRuns (serve_run served_and_closed) = 1
      \<and> df_cleanup (serve_run served_and_closed) = serve_run served_and_closed
      \<and> \<not> df_fileExists (serve_run served_and_closed)"
    using cleanup_body_runs_once [of True all_triggers served_and_closed] h d by blast
  have c3: "df_cleanupDone (serve_run cancelled_serving)
      \<and> df_bodyRuns (serve_run cancelled_serving) = 1
      \<and> \<not> df_fileExists (serve_run cancelled_serving)"
    using cleanup_body_runs_once [of True all_triggers cancelled_serving] k m by blast
  from c1 c2 c3 f c h d k m show ?thesis by simp
qed

section \<open>The order of the percentages sent, in binary64\<close>

lemma fgt_trans: "fgt c b \<Longrightarrow> fgt b a \<Longrightarrow> fgt c a"
  by (cases a; cases b; cases c) simp_all

lemma sorted_fgt_below_last:
  "sorted_wrt (\<lambda>a b. fgt b a) xs \<Longrightarrow> x \<in> set xs \<Longrightarrow> x = last xs \<or> fgt (last xs) x"
  by (induction xs) (auto simp: fgt_trans)

lemma sent64_ok_parseProgress:
  assumes "sent64_ok s"
  shows "sent64_ok (parseProgress64 s out)"
proof (cases "parseLine64 out")
  case None
  with assms show ?thesis by (simp add: parseProgress64_def)
next
  case (Some r)
  obtain p mb where r: "r = (p, mb)" by (cases r)
  define s1 where "s1 = (trackSizes64 mb s)\<lparr>currentFileProgress64 := p\<rparr>"
  have same: "sent64 s1 = sent64 s" "lastSentProgress64 s1 = lastSentProgress64 s"
    by (simp_all add: s1_def trackSizes64_def)
  with assms have ok1: "sent64_ok s1" by (simp add: sent64_ok_def)
  define v where "v = ffloor (combinedProgress64 s1)"
  show ?thesis
  proof (cases "fgt v (ffloor (lastSentProgress64 s1))")
    case False
    then have "parseProgress64 s out = s1"
      using Some r by (simp add: parseProgress64_def s1_def v_def Let_def)
    with ok1 show ?thesis by simp
  next
    case True
    define s2 where "s2 = s1\<lparr>lastSentProgress64 := combinedProgress64 s1,
                             sent64 := sent64 s1 @ [v]\<rparr>"
    have pp: "parseProgress64 s out = s2"
      using True Some r by (simp add: parseProgress64_def s1_def s2_def v_def Let_def)
    from ok1 have srt: "sorted_wrt (\<lambda>a b. fgt b a) (sent64 s1)"
      and lst: "last (sent64 s1) = ffloor (lastSentProgress64 s1)"
      by (simp_all add: sent64_ok_def)
    have below: "fgt v x" if "x \<in> set (sent64 s1)" for x
    proof -
      from srt that have "x = last (sent64 s1) \<or> fgt (last (sent64 s1)) x"
        by (rule sorted_fgt_below_last)
      with True lst show ?thesis by (auto intro: fgt_trans)
    qed
    have "sent64_ok s2"
      using srt below by (simp add: sent64_ok_def s2_def sorted_wrt_append v_def)
    with pp show ?thesis by simp
  qed
qed

text \<open>
  The percentages sent, in binary64: each is greater than every one sent before it, and the
  last one is the floor of \<open>lastSentProgress\<close>.
\<close>

lemma sent64_strictly_increasing:
  "sorted_wrt (\<lambda>a b. fgt b a) (sent64 (run64 outputs))
   \<and> last (sent64 (run64 outputs)) = ffloor (lastSentProgress64 (run64 outputs))"
proof -
  have "sent64_ok (run64 outputs)"
    unfolding run64_def
  proof (rule foldl_invariant)
    show "sent64_ok initial64" by (simp add: sent64_ok_def initial64_def)
  qed (rule sent64_ok_parseProgress)
  then show ?thesis by (simp add: sent64_ok_def)
qed

text \<open>
  A single stream of 10 MB observed at 7 percent: the combined progress is
  \<open>7881299347898367 / 2 ^ 50\<close>, the binary64 value printed as 6.999999999999999, and the
  percentage sent is 6.
\<close>

lemma seven_percent_in_binary64:
  "lastSentProgress64 (run64 [''[download]   7.0% of 10.00MiB'']) = Fin (7881299347898367 / 1125899906842624)"
  "sent64 (run64 [''[download]   7.0% of 10.00MiB'']) = [Fin 0, Fin 6]"
proof -
  have m: "progressMatch ''[download]   7.0% of 10.00MiB'' = Some ''7.0''"
    "sizeMatch ''[download]   7.0% of 10.00MiB'' = Some (False, ''10.00'', ''MiB'')"
    by (simp_all add: parse_eval)
  have v: "parseFloat64 ''7.0'' = Fin 7"
    unfolding parseFloat64_def round64_def Let_def
    by (simp add: parseFloat_def isDigit_def natOfDigits_def digitVal_def round64_eval)
  have l: "parseLine64 ''[download]   7.0% of 10.00MiB'' = Some (Fin 7, Fin 10)"
    by (simp add: parseLine64_def m v parse64_values convertToMB64_def toLowerCase_def)
  have o: "fmul (Fin 10) (Fin 7) = Fin 70"
    "fmul (Fin (5044031582654955 / 72057594037927936)) (Fin 100) = Fin (7881299347898367 / 1125899906842624)"
    unfolding fmul.simps round64_def Let_def by (simp_all add: round64_eval)
  have q: "fdiv (Fin 70) (Fin 100) = Fin (3152519739159347 / 4503599627370496)"
    "fdiv (Fin (3152519739159347 / 4503599627370496)) (Fin 10) = Fin (5044031582654955 / 72057594037927936)"
    unfolding fdiv.simps round64_def Let_def by (simp_all add: round64_eval)
  have r: "run64 [''[download]   7.0% of 10.00MiB''] =
     \<lparr>firstFileSize64 = Fin 10, secondFileSize64 = Fin 0, currentFileProgress64 = Fin 7,
      firstFileComplete64 = False, lastSentProgress64 = Fin (7881299347898367 / 1125899906842624),
      accumulatedMB64 = Fin 0, sent64 = [Fin 0, Fin 6]\<rparr>"
    by (simp add: run64_def initial64_def parseProgress64_def l trackSizes64_def
        combinedProgress64_def totalSize64_def totalDownloaded64_def feq_def o q Let_def)
  show "lastSentProgress64 (run64 [''[download]   7.0% of 10.00MiB'']) = Fin (7881299347898367 / 1125899906842624)"
    by (simp add: r)
  show "sent64 (run64 [''[download]   7.0% of 10.00MiB'']) = [Fin 0, Fin 6]"
    by (simp add: r)
qed

end
